theory Spec2Isabelle
  imports Main "HOL-Library.Word"
begin

section \<open>Bytes, Python slices and struct.unpack\<close>

text \<open>
  The container is a Python \<^verbatim>\<open>bytes\<close> object: a list of 8-bit words. Python integers are
  unbounded and are modelled by \<^typ>\<open>int\<close>. The exceptions that the modelled part of
  \<^verbatim>\<open>convert.py\<close> can raise are values of the type \<open>error\<close>: \<^verbatim>\<open>struct.error\<close> (every failed
  \<^verbatim>\<open>struct.unpack\<close>), \<^verbatim>\<open>KeyError\<close> (a compression code missing from \<^verbatim>\<open>formats\<close>),
  \<^verbatim>\<open>UnboundLocalError\<close> (a local variable read before it is bound) and \<^verbatim>\<open>SystemExit\<close>
  (\<^verbatim>\<open>sys.exit("No such file")\<close>).
\<close>

type_synonym byte = "8 word"
type_synonym bytes = "byte list"

datatype error = StructError | KeyError | UnboundLocalError | SystemExit

definition bind_err :: "error + 'a \<Rightarrow> ('a \<Rightarrow> error + 'b) \<Rightarrow> error + 'b" where
  "bind_err m f = (case m of Inl e \<Rightarrow> Inl e | Inr x \<Rightarrow> f x)"

text \<open>
  A slice bound of \<^verbatim>\<open>data[lo:hi]\<close> is adjusted as CPython does: a negative bound counts from
  the end, and every bound is clipped to the range from 0 to the length. A slice never raises.
\<close>

definition adjust_index :: "nat \<Rightarrow> int \<Rightarrow> nat" where
  "adjust_index n i =
     (if i < 0 then (if i + int n < 0 then 0 else nat (i + int n))
      else if int n < i then n else nat i)"

definition py_slice :: "'a list \<Rightarrow> int \<Rightarrow> int \<Rightarrow> 'a list" where
  "py_slice xs lo hi =
     (let s = adjust_index (length xs) lo; e = adjust_index (length xs) hi
      in take (e - s) (drop s xs))"

text \<open>
  \<^verbatim>\<open>struct.unpack(fmt, buf)\<close> raises \<^verbatim>\<open>struct.error\<close> unless \<open>buf\<close> has exactly the size of
  \<open>fmt\<close>. Each function below returns the single element of the 1-tuple that \<open>unpack\<close>
  returns. The formats carry no byte-order mark, so the host's order is used; it is taken to
  be little-endian. A double (\<^verbatim>\<open>"d"\<close>) is kept as its 64-bit pattern.
\<close>

fun le_nat :: "bytes \<Rightarrow> nat" where
  "le_nat [] = 0"
| "le_nat (b # bs) = unat b + 256 * le_nat bs"

definition struct_unpack_b :: "bytes \<Rightarrow> error + int" where
  "struct_unpack_b buf =
     (if length buf = 1 then Inr (sint (word_of_nat (le_nat buf) :: 8 word)) else Inl StructError)"

definition struct_unpack_h :: "bytes \<Rightarrow> error + int" where
  "struct_unpack_h buf =
     (if length buf = 2 then Inr (sint (word_of_nat (le_nat buf) :: 16 word)) else Inl StructError)"

definition struct_unpack_i :: "bytes \<Rightarrow> error + int" where
  "struct_unpack_i buf =
     (if length buf = 4 then Inr (sint (word_of_nat (le_nat buf) :: 32 word)) else Inl StructError)"

definition struct_unpack_I :: "bytes \<Rightarrow> error + int" where
  "struct_unpack_I buf =
     (if length buf = 4 then Inr (uint (word_of_nat (le_nat buf) :: 32 word)) else Inl StructError)"

definition struct_unpack_d :: "bytes \<Rightarrow> error + 64 word" where
  "struct_unpack_d buf =
     (if length buf = 8 then Inr (word_of_nat (le_nat buf)) else Inl StructError)"

text \<open>
  The format \<^verbatim>\<open>"{}s".format(n)\<close>: for a negative \<open>n\<close> the text starts with \<^verbatim>\<open>-\<close>, which is no
  format character, and \<open>unpack\<close> raises; otherwise the buffer must hold exactly \<open>n\<close> bytes,
  which are returned.
\<close>

definition struct_unpack_s :: "int \<Rightarrow> bytes \<Rightarrow> error + bytes" where
  "struct_unpack_s n buf =
     (if n < 0 then Inl StructError
      else if int (length buf) = n then Inr buf else Inl StructError)"

section \<open>The packet header\<close>

record packet_header =
  packet_type :: int
  packet_subtype :: int
  stream_id :: int
  start_time :: "64 word"
  end_time :: "64 word"
  packet_size :: int
  parameters_size :: int

text \<open>The dictionary literal of \<^verbatim>\<open>get_packet_header\<close> evaluates its entries in order.\<close>

definition get_packet_header :: "bytes \<Rightarrow> error + packet_header" where
  "get_packet_header data =
     bind_err (struct_unpack_b (py_slice data 0 1)) (\<lambda>pt.
     bind_err (struct_unpack_h (py_slice data 1 3)) (\<lambda>pst.
     bind_err (struct_unpack_b (py_slice data 3 4)) (\<lambda>sid.
     bind_err (struct_unpack_d (py_slice data 4 12)) (\<lambda>st.
     bind_err (struct_unpack_d (py_slice data 12 20)) (\<lambda>et.
     bind_err (struct_unpack_I (py_slice data 20 24)) (\<lambda>psz.
     bind_err (struct_unpack_I (py_slice data 24 28)) (\<lambda>prm.
     Inr \<lparr>packet_type = pt, packet_subtype = pst, stream_id = sid, start_time = st,
          end_time = et, packet_size = psz, parameters_size = prm\<rparr>)))))))"

section \<open>The compression code of a parameter block\<close>

text \<open>
  In \<^verbatim>\<open>get_data_value\<close> the variable \<open>data_value\<close> first holds the tuple returned by
  \<open>unpack\<close> and is compared with the integer 0. The two kinds of value are kept apart by the
  type \<open>pyval\<close>; Python's \<^verbatim>\<open>==\<close> between a tuple and an integer is the equality of this type.
\<close>

datatype pyval = PyInt int | PyTuple "bytes list"

definition get_data_value :: "bytes \<Rightarrow> int \<Rightarrow> error + int" where
  "get_data_value data data_size =
     bind_err (struct_unpack_s data_size (py_slice data 0 data_size)) (\<lambda>v.
     bind_err (if PyTuple [v] = PyInt 0
               then struct_unpack_s data_size (py_slice data 8 data_size)
               else Inr v) (\<lambda>v'.
     struct_unpack_b v'))"

lemma bind_err_cong [fundef_cong]:
  "m = m' \<Longrightarrow> (\<And>x. m' = Inr x \<Longrightarrow> f x = f' x) \<Longrightarrow> bind_err m f = bind_err m' f'"
  by (cases m') (simp_all add: bind_err_def)

text \<open>
  The loop \<^verbatim>\<open>for i in range(0, len(data), 22)\<close> of \<^verbatim>\<open>get_compression_type\<close>, from the
  index \<open>i\<close> on. Falling out of the loop returns \<^verbatim>\<open>None\<close>.
\<close>

function get_compression_type_from :: "bytes \<Rightarrow> int \<Rightarrow> error + int option" where
  "get_compression_type_from data i =
     (if i < int (length data) then
        bind_err (struct_unpack_h (py_slice data i (i + 2))) (\<lambda>type_id.
        bind_err (struct_unpack_i (py_slice data (i + 2) (i + 6))) (\<lambda>data_size.
        bind_err (struct_unpack_s 16 (py_slice data (i + 6) (i + 22))) (\<lambda>temp.
        if type_id = 10
        then bind_err (get_data_value temp data_size) (\<lambda>code. Inr (Some code))
        else get_compression_type_from data (i + 22))))
      else Inr None)"
  by pat_completeness auto
termination
  by (relation "measure (\<lambda>(data, i). nat (int (length data) - i))") auto

declare get_compression_type_from.simps [simp del]

definition get_compression_type :: "bytes \<Rightarrow> error + int option" where
  "get_compression_type data = get_compression_type_from data 0"

text \<open>
  The fields of a parameter record of 22 bytes, at the offsets that
  \<^verbatim>\<open>get_compression_type\<close> reads: the type id, the data size and the 16 bytes that follow.
\<close>

definition record_type_id :: "bytes \<Rightarrow> int" where
  "record_type_id r = sint (word_of_nat (le_nat (take 2 r)) :: 16 word)"

definition record_data_size :: "bytes \<Rightarrow> int" where
  "record_data_size r = sint (word_of_nat (le_nat (take 4 (drop 2 r))) :: 32 word)"

definition record_payload :: "bytes \<Rightarrow> bytes" where
  "record_payload r = take 16 (drop 6 r)"

text \<open>
  A parameter block that \<^verbatim>\<open>get_compression_type\<close> scans without an exception, told from
  its bytes alone: full records of 22 bytes whose type id is not 10, up to the end of the
  block or up to a first full record with type id 10 whose data size is 1.
\<close>

function param_block_ok :: "bytes \<Rightarrow> bool" where
  "param_block_ok block =
     (if block = [] then True
      else if length block < 22 then False
      else if record_type_id block = 10 then record_data_size block = 1
      else param_block_ok (drop 22 block))"
  by pat_completeness auto
termination
  by (relation "measure length") auto

declare param_block_ok.simps [simp del]

section \<open>The chunk generator\<close>

text \<open>A chunk is the tuple \<open>(compression, stream_id, raw_audio_chunk)\<close> that the generator yields.\<close>

type_synonym chunk = "int option \<times> int \<times> bytes"

text \<open>
  What a generator does until it ends: the values it yields, in order, and the exception
  that ends it (\<open>None\<close> when it returns).
\<close>

datatype gen_result = Gen (yielded: "chunk list") (raised: "error option")

fun gen_prepend :: "chunk list \<Rightarrow> gen_result \<Rightarrow> gen_result" where
  "gen_prepend ys (Gen zs r) = Gen (ys @ zs) r"

definition media_packet :: "packet_header \<Rightarrow> bool" where
  "media_packet headers \<longleftrightarrow>
     (packet_type headers = 4 \<and> packet_subtype headers \<in> {0, 3}) \<or>
     (packet_type headers = 5 \<and> packet_subtype headers = 300)"

text \<open>
  Lines 70 to 78 of \<^verbatim>\<open>chunks_generator\<close>: the chunks that one packet yields. The payload is
  unpacked before the parameter block is scanned.
\<close>

definition packet_chunks :: "bytes \<Rightarrow> int \<Rightarrow> packet_header \<Rightarrow> error + chunk list" where
  "packet_chunks data packet_header_end headers =
     (if media_packet headers then
        (let chunk_start = packet_header_end + parameters_size headers;
             chunk_end = chunk_start + packet_size headers - parameters_size headers;
             chunk_length = chunk_end - chunk_start
         in bind_err (struct_unpack_s chunk_length (py_slice data chunk_start chunk_end))
              (\<lambda>raw_audio_chunk.
            bind_err (get_compression_type
                        (py_slice data packet_header_end
                           (packet_header_end + parameters_size headers)))
              (\<lambda>compression.
            Inr [(compression, stream_id headers, raw_audio_chunk)])))
      else Inr [])"

lemma py_slice_nonempty: "py_slice xs lo hi \<noteq> [] \<Longrightarrow> lo < int (length xs)"
  by (auto simp: py_slice_def adjust_index_def Let_def split: if_splits)

lemma bind_err_Inr:
  "bind_err m f = Inr y \<longleftrightarrow> (\<exists>x. m = Inr x \<and> f x = Inr y)"
  by (cases m) (simp_all add: bind_err_def)

lemma struct_unpack_I_nonneg: "struct_unpack_I buf = Inr n \<Longrightarrow> 0 \<le> n"
  by (auto simp: struct_unpack_I_def split: if_splits)

lemma struct_unpack_b_length: "struct_unpack_b buf = Inr n \<Longrightarrow> length buf = 1"
  by (auto simp: struct_unpack_b_def split: if_splits)

lemma get_packet_header_Inr:
  assumes "get_packet_header d = Inr h"
  shows "d \<noteq> []" and "0 \<le> packet_size h" and "0 \<le> parameters_size h"
proof -
  from assms obtain pt pst sid st et psz prm where
    pt: "struct_unpack_b (py_slice d 0 1) = Inr pt" and
    psz: "struct_unpack_I (py_slice d 20 24) = Inr psz" and
    prm: "struct_unpack_I (py_slice d 24 28) = Inr prm" and
    h: "h = \<lparr>packet_type = pt, packet_subtype = pst, stream_id = sid, start_time = st,
          end_time = et, packet_size = psz, parameters_size = prm\<rparr>"
    unfolding get_packet_header_def bind_err_Inr by auto
  from pt have "py_slice d 0 1 \<noteq> []"
    by (auto dest: struct_unpack_b_length)
  then show "d \<noteq> []"
    by (auto simp: py_slice_def)
  from psz h show "0 \<le> packet_size h"
    by (simp add: struct_unpack_I_nonneg)
  from prm h show "0 \<le> parameters_size h"
    by (simp add: struct_unpack_I_nonneg)
qed

text \<open>
  The loop \<^verbatim>\<open>while True\<close> of \<^verbatim>\<open>chunks_generator\<close>, from the cursor
  \<open>packet_header_start\<close> on. It always ends: every turn moves the cursor forward by at least
  28, and a header is decoded only while the cursor is inside the container.
\<close>

function chunks_loop :: "bytes \<Rightarrow> int \<Rightarrow> gen_result" where
  "chunks_loop data packet_header_start =
     (let packet_header_end = packet_header_start + 28 in
      case get_packet_header (py_slice data packet_header_start packet_header_end) of
        Inl e \<Rightarrow> Gen [] (Some e)
      | Inr headers \<Rightarrow>
          (case packet_chunks data packet_header_end headers of
             Inl e \<Rightarrow> Gen [] (Some e)
           | Inr ys \<Rightarrow>
               if packet_type headers = 7 then Gen ys None
               else gen_prepend ys
                      (chunks_loop data (packet_header_start + packet_size headers + 28))))"
  by pat_completeness auto
termination
proof (relation "measure (\<lambda>(data, c). nat (int (length data) - c))", goal_cases)
  case 1
  show ?case by simp
next
  case (2 data c pe h ys)
  from 2(2) have "py_slice data c pe \<noteq> []" and "0 \<le> packet_size h"
    by (auto dest: get_packet_header_Inr)
  then have "c < int (length data)"
    by (auto dest: py_slice_nonempty)
  with \<open>0 \<le> packet_size h\<close> show ?case by simp
qed

declare chunks_loop.simps [simp del]

text \<open>
  \<^verbatim>\<open>chunks_generator\<close> reads the whole file first; \<open>None\<close> stands for a file that cannot be
  opened (\<^verbatim>\<open>IOError\<close>, turned into \<^verbatim>\<open>sys.exit\<close>).
\<close>

definition chunks_generator :: "bytes option \<Rightarrow> gen_result" where
  "chunks_generator file =
     (case file of None \<Rightarrow> Gen [] (Some SystemExit) | Some data \<Rightarrow> chunks_loop data 0)"

text \<open>
  The packets that the loop decodes, each with the cursor of its header, in order: the same
  cursor walk as \<open>chunks_loop\<close>, recording the headers instead of the chunks. The walk stops
  where the loop stops: at a header that cannot be decoded, at a packet whose chunk cannot be
  built, and after a packet of type 7.
\<close>

function packets_decoded :: "bytes \<Rightarrow> int \<Rightarrow> (int \<times> packet_header) list" where
  "packets_decoded data packet_header_start =
     (case get_packet_header (py_slice data packet_header_start (packet_header_start + 28)) of
        Inl e \<Rightarrow> []
      | Inr headers \<Rightarrow>
          (packet_header_start, headers) #
          (case packet_chunks data (packet_header_start + 28) headers of
             Inl e \<Rightarrow> []
           | Inr ys \<Rightarrow>
               if packet_type headers = 7 then []
               else packets_decoded data (packet_header_start + packet_size headers + 28)))"
  by pat_completeness auto
termination
proof (relation "measure (\<lambda>(data, c). nat (int (length data) - c))", goal_cases)
  case 1
  show ?case by simp
next
  case (2 data c h ys)
  from 2(1) have "py_slice data c (c + 28) \<noteq> []" and "0 \<le> packet_size h"
    by (auto dest: get_packet_header_Inr)
  then have "c < int (length data)"
    by (auto dest: py_slice_nonempty)
  with \<open>0 \<le> packet_size h\<close> show ?case by simp
qed

declare packets_decoded.simps [simp del]

text \<open>
  The cursors at which the loop of \<^verbatim>\<open>chunks_generator\<close> expects a header: the start of the
  container, and the position after each decoded packet that is not of type 7 and whose
  chunk, if any, was yielded.
\<close>

definition header_cursor :: "bytes \<Rightarrow> int \<Rightarrow> bool" where
  "header_cursor data c \<longleftrightarrow>
     c = 0 \<or>
     (\<exists>(c0, h0) \<in> set (packets_decoded data 0).
        \<not> isl (packet_chunks data (c0 + 28) h0) \<and> packet_type h0 \<noteq> 7 \<and>
        c = c0 + packet_size h0 + 28)"


text \<open>
  The packets of a container as its layout gives them, whatever their content: a header at
  cursor 0 and, after each packet that is not of type 7, a header \<open>28 + packet_size\<close> bytes
  further, as long as a header can be decoded. It is the walk of \<open>packets_decoded\<close> without
  the step that builds the chunk.
\<close>

function packet_chain :: "bytes \<Rightarrow> int \<Rightarrow> (int \<times> packet_header) list" where
  "packet_chain data c =
     (case get_packet_header (py_slice data c (c + 28)) of
        Inl e \<Rightarrow> []
      | Inr h \<Rightarrow>
          (c, h) # (if packet_type h = 7 then [] else packet_chain data (c + packet_size h + 28)))"
  by pat_completeness auto
termination
proof (relation "measure (\<lambda>(data, c). nat (int (length data) - c))", goal_cases)
  case 1
  show ?case by simp
next
  case (2 data c h)
  from 2(1) have "py_slice data c (c + 28) \<noteq> []" and "0 \<le> packet_size h"
    by (auto dest: get_packet_header_Inr)
  then have "c < int (length data)"
    by (auto dest: py_slice_nonempty)
  with \<open>0 \<le> packet_size h\<close> show ?case by simp
qed

declare packet_chain.simps [simp del]

text \<open>
  A packet of the layout that the loop can turn into its chunk: if it is a media packet, its
  \<open>parameters_size\<close> is at most its \<open>packet_size\<close>, it ends inside the container, and its
  parameter block scans without an exception.
\<close>

definition packet_sound :: "bytes \<Rightarrow> int \<times> packet_header \<Rightarrow> bool" where
  "packet_sound data p \<longleftrightarrow>
     (case p of (c, h) \<Rightarrow>
        media_packet h \<longrightarrow>
          parameters_size h \<le> packet_size h \<and>
          c + 28 + packet_size h \<le> int (length data) \<and>
          param_block_ok (take (nat (parameters_size h)) (drop (nat (c + 28)) data)))"

text \<open>
  What relates a yielded chunk to the media packet it comes from, in a container whose
  cursors are not negative: the stream id is the header's, the payload is the
  \<open>packet_size - parameters_size\<close> bytes that follow the parameter block, and the compression
  is what \<^verbatim>\<open>get_compression_type\<close> returns on the parameter block, the
  \<open>parameters_size\<close> bytes that follow the header.
\<close>

definition chunk_of_packet :: "bytes \<Rightarrow> int \<times> packet_header \<Rightarrow> chunk \<Rightarrow> bool" where
  "chunk_of_packet data p ch \<longleftrightarrow>
     (case p of (c, h) \<Rightarrow> case ch of (code, sid, raw) \<Rightarrow>
        sid = stream_id h \<and>
        int (length raw) = packet_size h - parameters_size h \<and>
        raw = take (nat (packet_size h - parameters_size h))
                (drop (nat (c + 28 + parameters_size h)) data) \<and>
        get_compression_type (take (nat (parameters_size h)) (drop (nat (c + 28)) data)) =
          Inr code)"

section \<open>The accumulation and the choice of the encoder format\<close>

definition formats :: "int \<rightharpoonup> string" where
  "formats = map_of
     [(0, ''g729''), (1, ''g726''), (2, ''g726''), (3, ''alaw''), (7, ''mulaw''),
      (8, ''g729''), (9, ''g723_1''), (10, ''g723_1''), (19, ''g722'')]"

text \<open>The subscription \<^verbatim>\<open>formats[k]\<close> raises \<^verbatim>\<open>KeyError\<close> for a key that is not in the table.\<close>

definition formats_item :: "int \<Rightarrow> error + string" where
  "formats_item k = (case formats k of None \<Rightarrow> Inl KeyError | Some f \<Rightarrow> Inr f)"

text \<open>
  A local variable of \<^verbatim>\<open>convert_to_mp3\<close> is unbound until its first assignment. The target
  \<open>compression\<close> of the first \<^verbatim>\<open>for\<close> loop is bound by each chunk and keeps its last value
  after the loop.
\<close>

datatype 'a var = Unbound | Bound 'a

text \<open>
  The dictionary \<open>audio_chunks\<close> is a list of its items, in insertion order; its keys never
  change.
\<close>

record conv_state =
  audio_chunks :: "(int \<times> bytes) list"
  compression :: "int option var"

definition conv_init :: conv_state where
  "conv_init = \<lparr>audio_chunks = [(0, []), (1, [])], compression = Unbound\<rparr>"

text \<open>\<^verbatim>\<open>audio_chunks[stream_id] += raw_audio_chunk\<close>, for a key of the dictionary.\<close>

definition dict_append :: "(int \<times> bytes) list \<Rightarrow> int \<Rightarrow> bytes \<Rightarrow> (int \<times> bytes) list" where
  "dict_append d k raw = map (\<lambda>(k', buf). if k' = k then (k', buf @ raw) else (k', buf)) d"

text \<open>One turn of the loop of lines 88 to 90.\<close>

fun consume_chunk :: "conv_state \<Rightarrow> chunk \<Rightarrow> conv_state" where
  "consume_chunk st (c, sid, raw_audio_chunk) =
     \<lparr>audio_chunks =
        (if sid \<in> fst ` set (audio_chunks st)
         then dict_append (audio_chunks st) sid raw_audio_chunk
         else audio_chunks st),
      compression = Bound c\<rparr>"

text \<open>
  Line 101: \<^verbatim>\<open>formats[compression] if compression is not None else formats[0]\<close>. The
  condition is evaluated first, and reading an unbound local raises.
\<close>

definition select_format :: "int option var \<Rightarrow> error + string" where
  "select_format v =
     (case v of
        Unbound \<Rightarrow> Inl UnboundLocalError
      | Bound None \<Rightarrow> formats_item 0
      | Bound (Some c) \<Rightarrow> formats_item c)"

text \<open>
  One run of the encoder (lines 102 to 113): the input format, the temporary file it writes
  and the bytes sent to its standard input.
\<close>

datatype temp_file = Temp_caller | Temp_receiver

record encoder_run =
  input_format :: string
  output_file :: temp_file
  stdin_bytes :: bytes

text \<open>The loop of lines 100 to 113 over the items of \<open>audio_chunks\<close>.\<close>

fun encode_streams :: "int option var \<Rightarrow> (int \<times> bytes) list \<Rightarrow> error + encoder_run list" where
  "encode_streams v [] = Inr []"
| "encode_streams v ((sid, buf) # rest) =
     bind_err (select_format v) (\<lambda>format.
     bind_err (encode_streams v rest) (\<lambda>runs.
     Inr (\<lparr>input_format = format,
           output_file = (if sid = 0 then Temp_caller else Temp_receiver),
           stdin_bytes = buf\<rparr> # runs)))"

definition accumulate :: "chunk list \<Rightarrow> conv_state" where
  "accumulate chunks = foldl consume_chunk conv_init chunks"

definition convert_chunks :: "chunk list \<Rightarrow> error + encoder_run list" where
  "convert_chunks chunks =
     (let st = accumulate chunks in encode_streams (compression st) (audio_chunks st))"

text \<open>
  \<^verbatim>\<open>convert_to_mp3\<close> up to the runs of the encoder: an exception of the generator leaves the
  function before any encoder is started.
\<close>

definition convert_to_mp3 :: "bytes option \<Rightarrow> error + encoder_run list" where
  "convert_to_mp3 file =
     (case chunks_generator file of
        Gen chunks (Some e) \<Rightarrow> Inl e
      | Gen chunks None \<Rightarrow> convert_chunks chunks)"

text \<open>The bytes of the chunks that carry the stream id \<open>k\<close>, concatenated in order.\<close>

definition stream_bytes :: "int \<Rightarrow> chunk list \<Rightarrow> bytes" where
  "stream_bytes k chunks = concat (map (\<lambda>(c, sid, raw). raw) (filter (\<lambda>(c, sid, raw). sid = k) chunks))"

section \<open>The wording of the specification\<close>

text \<open>
  Two functions as the specification words them, to be compared with the code. The
  extractor: the first byte of the first \<open>dataSize\<close> bytes of the payload, read as a signed
  8-bit integer.
\<close>

definition spec_extract :: "bytes \<Rightarrow> int \<Rightarrow> int" where
  "spec_extract payload dataSize = sint (hd (take (nat dataSize) payload))"

text \<open>
  The codec of a stream: the most recently observed compression code that is not unknown
  among the chunks of that stream, looked up in the table; \<open>g729\<close> when the stream has no
  such code.
\<close>

definition spec_stream_code :: "int \<Rightarrow> chunk list \<Rightarrow> int option" where
  "spec_stream_code k chunks =
     (case filter (\<lambda>c. c \<noteq> None) (map fst (filter (\<lambda>(c, sid, raw). sid = k) chunks)) of
        [] \<Rightarrow> None
      | c # cs \<Rightarrow> last (c # cs))"

definition spec_stream_codec :: "int \<Rightarrow> chunk list \<Rightarrow> error + string" where
  "spec_stream_codec k chunks =
     (case spec_stream_code k chunks of None \<Rightarrow> Inr ''g729'' | Some c \<Rightarrow> formats_item c)"

text \<open>
  A well-formed container, by the data model of the specification: its packets end with a
  packet of type 7, and every packet has \<open>packet_size >= parameters_size\<close> and lies inside
  the container.
\<close>

definition well_formed :: "bytes \<Rightarrow> bool" where
  "well_formed data \<longleftrightarrow>
     packet_chain data 0 \<noteq> [] \<and>
     packet_type (snd (last (packet_chain data 0))) = 7 \<and>
     (\<forall>(c, h) \<in> set (packet_chain data 0).
        parameters_size h \<le> packet_size h \<and> c + 28 + packet_size h \<le> int (length data))"

section \<open>Concrete inputs\<close>

text \<open>
  The scenario of the specification: a media packet (type 4, subtype 0, stream 0, packet size
  50, parameters size 22) with one parameter record (type id 10, data size 1, first payload
  byte 3) and 28 payload bytes, then a header of type 7.
\<close>

definition scenario_container :: bytes where
  "scenario_container =
     [4, 0, 0, 0,  0, 0, 0, 0, 0, 0, 0, 0,  0, 0, 0, 0, 0, 0, 0, 0,  50, 0, 0, 0,  22, 0, 0, 0,
      10, 0,  1, 0, 0, 0,  3, 0, 0, 0, 0, 0, 0, 0, 0, 0, 0, 0, 0, 0, 0, 0,
      1, 2, 3, 4, 5, 6, 7, 8, 9, 10, 11, 12, 13, 14, 15, 16, 17, 18, 19, 20, 21, 22, 23, 24,
      25, 26, 27, 28,
      7, 0, 0, 0,  0, 0, 0, 0, 0, 0, 0, 0,  0, 0, 0, 0, 0, 0, 0, 0,  0, 0, 0, 0,  0, 0, 0, 0]"

definition terminal_header :: packet_header where
  "terminal_header =
     \<lparr>packet_type = 7, packet_subtype = 0, stream_id = 0, start_time = 0, end_time = 0,
      packet_size = 0, parameters_size = 0\<rparr>"

text \<open>
  A packet that is not a media packet (type 1, packet size 2), followed by 5 bytes: too few
  for a header.
\<close>

definition truncated_container :: bytes where
  "truncated_container =
     [1, 0, 0, 0,  0, 0, 0, 0, 0, 0, 0, 0,  0, 0, 0, 0, 0, 0, 0, 0,  2, 0, 0, 0,  0, 0, 0, 0,
      170, 187,
      7, 0, 0, 0, 0]"

text \<open>
  A media packet with two payload bytes and no parameters, then a header of type 7 whose
  \<open>packet_size\<close> 0 is less than its \<open>parameters_size\<close> 1.
\<close>

definition unchecked_container :: bytes where
  "unchecked_container =
     [4, 0, 0, 0,  0, 0, 0, 0, 0, 0, 0, 0,  0, 0, 0, 0, 0, 0, 0, 0,  2, 0, 0, 0,  0, 0, 0, 0,
      17, 34,
      7, 0, 0, 0,  0, 0, 0, 0, 0, 0, 0, 0,  0, 0, 0, 0, 0, 0, 0, 0,  0, 0, 0, 0,  1, 0, 0, 0]"

text \<open>
  An empty packet of type 1, then a media packet (type 5, subtype 300, stream 1) whose
  \<open>packet_size\<close> 1 is less than its \<open>parameters_size\<close> 2.
\<close>

definition negative_container :: bytes where
  "negative_container =
     [1, 0, 0, 0,  0, 0, 0, 0, 0, 0, 0, 0,  0, 0, 0, 0, 0, 0, 0, 0,  0, 0, 0, 0,  0, 0, 0, 0,
      5, 44, 1, 1,  0, 0, 0, 0, 0, 0, 0, 0,  0, 0, 0, 0, 0, 0, 0, 0,  1, 0, 0, 0,  2, 0, 0, 0,
      9, 9]"

definition negative_header :: packet_header where
  "negative_header = \<lparr>packet_type = 5, packet_subtype = 300, stream_id = 1, start_time = 0, end_time = 0,
            packet_size = 1, parameters_size = 2\<rparr>"

text \<open>
  An empty media packet, then a packet of type 2 that announces 9 bytes where 3 remain, and
  no packet of type 7.
\<close>

definition unterminated_container :: bytes where
  "unterminated_container =
     [4, 3, 0, 1,  0, 0, 0, 0, 0, 0, 0, 0,  0, 0, 0, 0, 0, 0, 0, 0,  0, 0, 0, 0,  0, 0, 0, 0,
      2, 0, 0, 0,  0, 0, 0, 0, 0, 0, 0, 0,  0, 0, 0, 0, 0, 0, 0, 0,  9, 0, 0, 0,  0, 0, 0, 0,
      1, 2, 3]"

definition unterminated_header :: packet_header where
  "unterminated_header =
     \<lparr>packet_type = 2, packet_subtype = 0, stream_id = 0, start_time = 0, end_time = 0,
      packet_size = 9, parameters_size = 0\<rparr>"

text \<open>
  A media packet (packet size 24, parameters size 22) whose parameter record is a compression
  marker with data size 2 and first payload byte 3, two payload bytes, then a header of
  type 7: 80 bytes, every packet inside the container.
\<close>

definition marker_two_container :: bytes where
  "marker_two_container =
     [4, 0, 0, 0,  0, 0, 0, 0, 0, 0, 0, 0,  0, 0, 0, 0, 0, 0, 0, 0,  24, 0, 0, 0,  22, 0, 0, 0,
      10, 0,  2, 0, 0, 0,  3, 0, 0, 0, 0, 0, 0, 0, 0, 0, 0, 0, 0, 0, 0, 0,
      5, 6,
      7, 0, 0, 0,  0, 0, 0, 0, 0, 0, 0, 0,  0, 0, 0, 0, 0, 0, 0, 0,  0, 0, 0, 0,  0, 0, 0, 0]"

text \<open>A container that is a single header of type 7.\<close>

definition terminal_only :: bytes where
  "terminal_only =
     [7, 0, 0, 0,  0, 0, 0, 0, 0, 0, 0, 0,  0, 0, 0, 0, 0, 0, 0, 0,  0, 0, 0, 0,  0, 0, 0, 0]"

text \<open>
  Two parameter records: one of type id 1, and a compression marker (type id 10, data size
  1) whose first payload byte is 253. A payload of 16 bytes that starts with 3.
\<close>

definition other_record :: bytes where
  "other_record = [1, 0,  1, 0, 0, 0,  9, 0, 0, 0, 0, 0, 0, 0, 0, 0, 0, 0, 0, 0, 0, 0]"

definition marker_record :: bytes where
  "marker_record = [10, 0,  1, 0, 0, 0,  253, 0, 0, 0, 0, 0, 0, 0, 0, 0, 0, 0, 0, 0, 0, 0]"

definition marker_payload :: bytes where
  "marker_payload = [3, 0, 0, 0, 0, 0, 0, 0, 0, 0, 0, 0, 0, 0, 0, 0]"

text \<open>Chunks of the two streams, the last one with an unknown compression.\<close>

definition three_chunks :: "chunk list" where
  "three_chunks = [(Some 3, 0, [1, 2]), (Some 7, 1, [3]), (None, 0, [4])]"

section \<open>Facts about slices and decoding\<close>

lemma bind_err_simps [simp]:
  "bind_err (Inl e) f = Inl e" "bind_err (Inr x) f = f x"
  by (simp_all add: bind_err_def)

lemma bind_err_Inl:
  "bind_err m f = Inl e \<longleftrightarrow> m = Inl e \<or> (\<exists>x. m = Inr x \<and> f x = Inl e)"
  by (cases m) simp_all

lemma py_slice_nat:
  "0 \<le> lo \<Longrightarrow> 0 \<le> hi \<Longrightarrow> py_slice xs lo hi = take (nat hi - nat lo) (drop (nat lo) xs)"
  by (auto simp: py_slice_def adjust_index_def Let_def min_def)

lemma length_py_slice:
  "0 \<le> lo \<Longrightarrow> 0 \<le> hi \<Longrightarrow> length (py_slice xs lo hi) = min (nat hi) (length xs) - nat lo"
  by (simp add: py_slice_nat) arith

lemma py_slice_take:
  "0 \<le> lo \<Longrightarrow> 0 \<le> hi \<Longrightarrow> hi \<le> int n \<Longrightarrow> py_slice (take n xs) lo hi = py_slice xs lo hi"
  by (auto simp: py_slice_nat take_drop min_def intro!: arg_cong2[where f=take])

lemma struct_unpack_errors:
  "struct_unpack_b buf = Inl e \<Longrightarrow> e = StructError"
  "struct_unpack_h buf = Inl e \<Longrightarrow> e = StructError"
  "struct_unpack_i buf = Inl e \<Longrightarrow> e = StructError"
  "struct_unpack_I buf = Inl e \<Longrightarrow> e = StructError"
  "struct_unpack_d buf = Inl e \<Longrightarrow> e = StructError"
  "struct_unpack_s n buf = Inl e \<Longrightarrow> e = StructError"
  by (auto simp: struct_unpack_b_def struct_unpack_h_def struct_unpack_i_def
      struct_unpack_I_def struct_unpack_d_def struct_unpack_s_def split: if_splits)

lemma get_packet_header_error: "get_packet_header buf = Inl e \<Longrightarrow> e = StructError"
  unfolding get_packet_header_def bind_err_Inl
  by (auto dest: struct_unpack_errors)

lemma get_data_value_error: "get_data_value buf n = Inl e \<Longrightarrow> e = StructError"
  unfolding get_data_value_def bind_err_Inl
  by (auto dest: struct_unpack_errors)

lemma get_compression_type_from_error:
  "get_compression_type_from data i = Inl e \<Longrightarrow> e = StructError"
proof (induction data i rule: get_compression_type_from.induct)
  case (1 data i)
  from "1.prems" show ?case
    apply (subst (asm) get_compression_type_from.simps)
    apply (auto simp: bind_err_Inl split: if_splits dest: struct_unpack_errors get_data_value_error "1.IH")
    done
qed

lemma packet_chunks_error: "packet_chunks data pe h = Inl e \<Longrightarrow> e = StructError"
  by (auto simp: packet_chunks_def get_compression_type_def Let_def bind_err_Inl
      split: if_splits dest: struct_unpack_errors get_compression_type_from_error)

lemma get_packet_header_length: "get_packet_header buf = Inr h \<Longrightarrow> 28 \<le> length buf"
proof -
  assume "get_packet_header buf = Inr h"
  then obtain prm where "struct_unpack_I (py_slice buf 24 28) = Inr prm"
    unfolding get_packet_header_def bind_err_Inr by auto
  then have "length (py_slice buf 24 28) = 4"
    by (auto simp: struct_unpack_I_def split: if_splits)
  then show ?thesis
    by (simp add: length_py_slice)
qed

lemma get_packet_header_short:
  "length buf < 28 \<Longrightarrow> get_packet_header buf = Inl StructError"
proof (cases "get_packet_header buf")
  case (Inl e)
  then show ?thesis by (auto dest: get_packet_header_error)
next
  case (Inr h)
  assume "length buf < 28"
  with Inr show ?thesis by (auto dest: get_packet_header_length)
qed

lemma length_header_slice:
  "0 \<le> c \<Longrightarrow> int (length data) - c < 28 \<Longrightarrow> length (py_slice data c (c + 28)) < 28"
  by (simp add: length_py_slice)

lemma py_slice_beyond: "int (length xs) \<le> lo \<Longrightarrow> py_slice xs lo hi = []"
  by (auto simp: py_slice_def adjust_index_def Let_def)

lemma py_slice_agree:
  assumes "take n xs = take n ys" and "0 \<le> lo" and "0 \<le> hi" and "hi \<le> int n"
  shows "py_slice xs lo hi = py_slice ys lo hi"
proof -
  from assms(2-4) have "py_slice xs lo hi = py_slice (take n xs) lo hi"
    by (simp add: py_slice_take)
  also have "\<dots> = py_slice (take n ys) lo hi"
    using assms(1) by simp
  also from assms(2-4) have "\<dots> = py_slice ys lo hi"
    by (simp add: py_slice_take)
  finally show ?thesis .
qed

lemma packet_chunks_negative:
  "media_packet h \<Longrightarrow> packet_size h < parameters_size h \<Longrightarrow>
   packet_chunks data pe h = Inl StructError"
  by (simp add: packet_chunks_def Let_def struct_unpack_s_def)

lemma packet_chunks_sizes:
  "media_packet h \<Longrightarrow> packet_chunks d pe h = Inr ys \<Longrightarrow> parameters_size h \<le> packet_size h"
  by (auto simp: packet_chunks_def Let_def struct_unpack_s_def bind_err_Inr split: if_splits)

lemma packet_chunks_media_slices:
  assumes "media_packet h" and "packet_chunks data pe h = Inr ys"
    and "0 \<le> pe" and "0 \<le> parameters_size h"
  shows "\<exists>code raw. ys = [(code, stream_id h, raw)] \<and>
           int (length raw) = packet_size h - parameters_size h \<and>
           raw = take (nat (packet_size h - parameters_size h))
                   (drop (nat (pe + parameters_size h)) data) \<and>
           get_compression_type (take (nat (parameters_size h)) (drop (nat pe) data)) = Inr code"
proof -
  let ?lo = "pe + parameters_size h" and ?hi = "pe + packet_size h"
  from assms(1,2) obtain raw code where
    raw: "struct_unpack_s (packet_size h - parameters_size h) (py_slice data ?lo ?hi) = Inr raw"
    and code: "get_compression_type (py_slice data pe (pe + parameters_size h)) = Inr code"
    and ys: "ys = [(code, stream_id h, raw)]"
    by (auto simp: packet_chunks_def Let_def bind_err_Inr)
  from raw have le: "parameters_size h \<le> packet_size h"
    and r: "raw = py_slice data ?lo ?hi" and l: "int (length raw) = packet_size h - parameters_size h"
    by (auto simp: struct_unpack_s_def split: if_splits)
  from le assms(3,4) have "nat ?hi - nat ?lo = nat (packet_size h - parameters_size h)"
    by simp
  with r assms(3,4) le have r': "raw = take (nat (packet_size h - parameters_size h)) (drop (nat ?lo) data)"
    by (simp add: py_slice_nat)
  from assms(3,4) have "nat (pe + parameters_size h) - nat pe = nat (parameters_size h)"
    by simp
  with assms(3,4) have "py_slice data pe (pe + parameters_size h) =
      take (nat (parameters_size h)) (drop (nat pe) data)"
    by (simp add: py_slice_nat)
  with code r' l ys show ?thesis
    by simp
qed

lemma struct_unpack_b_single: "struct_unpack_b [b] = Inr (sint b)"
  by (simp add: struct_unpack_b_def)

lemma struct_unpack_b_other: "length buf \<noteq> 1 \<Longrightarrow> struct_unpack_b buf = Inl StructError"
  by (simp add: struct_unpack_b_def)

lemma get_data_value_no_fallback:
  "get_data_value data data_size =
   bind_err (struct_unpack_s data_size (py_slice data 0 data_size)) struct_unpack_b"
  by (simp add: get_data_value_def)

lemma get_data_value_one:
  assumes "data \<noteq> []"
  shows "get_data_value data 1 = Inr (sint (hd data))"
proof -
  from assms obtain b bs where "data = b # bs"
    by (cases data) auto
  then show ?thesis
    by (simp add: get_data_value_no_fallback py_slice_nat struct_unpack_s_def
        struct_unpack_b_single)
qed

lemma get_data_value_not_one:
  assumes "data_size \<noteq> 1"
  shows "get_data_value data data_size = Inl StructError"
proof (cases "struct_unpack_s data_size (py_slice data 0 data_size)")
  case (Inl e)
  then have "e = StructError"
    by (rule struct_unpack_errors)
  with Inl show ?thesis
    by (simp add: get_data_value_no_fallback)
next
  case (Inr v)
  then have "int (length v) = data_size"
    by (auto simp: struct_unpack_s_def split: if_splits)
  with assms have "length v \<noteq> 1"
    by auto
  with Inr show ?thesis
    by (simp add: get_data_value_no_fallback struct_unpack_b_other)
qed

lemma py_slice_mid:
  assumes "a \<le> b" and "b \<le> length r"
  shows "py_slice (pre @ r @ rest) (int (length pre) + int a) (int (length pre) + int b) =
         take (b - a) (drop a r)"
proof -
  have "nat (int (length pre) + int b) - nat (int (length pre) + int a) = b - a"
    by simp
  moreover have "nat (int (length pre) + int a) = length pre + a"
    by simp
  ultimately have "py_slice (pre @ r @ rest) (int (length pre) + int a) (int (length pre) + int b) =
      take (b - a) (drop (length pre + a) (pre @ r @ rest))"
    by (simp add: py_slice_nat)
  also have "drop (length pre + a) (pre @ r @ rest) = drop a r @ rest"
    using assms by simp
  also have "take (b - a) (drop a r @ rest) = take (b - a) (drop a r)"
    using assms by simp
  finally show ?thesis .
qed

lemma scan_record:
  assumes "length r = 22"
  shows "get_compression_type_from (pre @ r @ rest) (int (length pre)) =
         (if record_type_id r = 10
          then bind_err (get_data_value (record_payload r) (record_data_size r))
                 (\<lambda>code. Inr (Some code))
          else get_compression_type_from (pre @ r @ rest) (int (length pre) + 22))"
proof -
  let ?d = "pre @ r @ rest" and ?i = "int (length pre)"
  from assms have s1: "py_slice ?d ?i (?i + 2) = take 2 r"
    using py_slice_mid [of 0 2 r pre rest] by simp
  from assms have s2: "py_slice ?d (?i + 2) (?i + 6) = take 4 (drop 2 r)"
    using py_slice_mid [of 2 6 r pre rest] by simp
  from assms have s3: "py_slice ?d (?i + 6) (?i + 22) = take 16 (drop 6 r)"
    using py_slice_mid [of 6 22 r pre rest] by simp
  from assms have "?i < int (length ?d)"
    by simp
  then show ?thesis
    using assms
    by (subst get_compression_type_from.simps)
      (simp add: s1 s2 s3 struct_unpack_h_def struct_unpack_i_def struct_unpack_s_def
        record_type_id_def record_data_size_def record_payload_def)
qed

lemma scan_skip:
  assumes "\<forall>r \<in> set recs. length r = 22 \<and> record_type_id r \<noteq> 10"
  shows "get_compression_type_from (pre @ concat recs @ rest) (int (length pre)) =
         get_compression_type_from (pre @ concat recs @ rest) (int (length (pre @ concat recs)))"
  using assms
proof (induction recs arbitrary: pre)
  case Nil
  show ?case by simp
next
  case (Cons r recs)
  then have r: "length r = 22" "record_type_id r \<noteq> 10"
    by simp_all
  have "get_compression_type_from (pre @ concat (r # recs) @ rest) (int (length pre)) =
      get_compression_type_from (pre @ r @ (concat recs @ rest)) (int (length pre))"
    by simp
  also have "\<dots> = get_compression_type_from (pre @ r @ (concat recs @ rest)) (int (length pre) + 22)"
    using r by (simp add: scan_record)
  also have "\<dots> = get_compression_type_from ((pre @ r) @ concat recs @ rest) (int (length (pre @ r)))"
    using r by simp
  also have "\<dots> = get_compression_type_from ((pre @ r) @ concat recs @ rest)
      (int (length ((pre @ r) @ concat recs)))"
    using Cons.prems by (intro Cons.IH) simp
  finally show ?case
    by simp
qed

lemma scan_end: "get_compression_type_from data (int (length data)) = Inr None"
  by (subst get_compression_type_from.simps) simp

lemma scan_Inr_full:
  assumes "get_compression_type_from data i = Inr y" and "0 \<le> i" and "i < int (length data)"
  shows "i + 22 \<le> int (length data)"
proof -
  from assms(1,3) obtain temp where
    "struct_unpack_s 16 (py_slice data (i + 6) (i + 22)) = Inr temp"
    by (subst (asm) get_compression_type_from.simps) (auto simp: bind_err_Inr)
  then have "length (py_slice data (i + 6) (i + 22)) = 16"
    by (auto simp: struct_unpack_s_def split: if_splits)
  with assms(2) show ?thesis
    by (simp add: length_py_slice)
qed

lemma scan_partial:
  assumes "0 < length tail" and "length tail < 22"
  shows "get_compression_type_from (pre @ tail) (int (length pre)) = Inl StructError"
proof (cases "get_compression_type_from (pre @ tail) (int (length pre))")
  case (Inl e)
  then have "e = StructError"
    by (rule get_compression_type_from_error)
  with Inl show ?thesis
    by simp
next
  case (Inr y)
  then have "int (length pre) + 22 \<le> int (length (pre @ tail))"
    using assms(1) by (intro scan_Inr_full) auto
  with assms(2) show ?thesis
    by simp
qed

lemma param_block_scan_from:
  "param_block_ok block \<Longrightarrow>
   \<exists>code. get_compression_type_from (pre @ block) (int (length pre)) = Inr code"
proof (induction block arbitrary: pre rule: param_block_ok.induct)
  case (1 block)
  show ?case
  proof (cases "block = []")
    case True
    then show ?thesis
      by (simp add: scan_end)
  next
    case False
    with "1.prems" have len: "22 \<le> length block"
      by (subst (asm) param_block_ok.simps) (simp split: if_splits)
    then obtain r rest where block: "block = r @ rest" and r: "length r = 22"
      by (metis append_take_drop_id length_take min.absorb2)
    from r have rest: "drop 22 block = rest"
      by (simp add: block)
    from r have fields: "record_type_id block = record_type_id r"
      "record_data_size block = record_data_size r"
      by (simp_all add: block record_type_id_def record_data_size_def)
    show ?thesis
    proof (cases "record_type_id block = 10")
      case True
      with "1.prems" False len have "record_data_size block = 1"
        by (subst (asm) param_block_ok.simps) simp
      moreover from r have "record_payload r \<noteq> []"
        by (auto simp: record_payload_def)
      ultimately have "get_data_value (record_payload r) (record_data_size r) =
          Inr (sint (hd (record_payload r)))"
        by (simp add: fields get_data_value_one)
      moreover from True have "record_type_id r = 10"
        by (simp add: fields)
      ultimately have "get_compression_type_from (pre @ r @ rest) (int (length pre)) =
          Inr (Some (sint (hd (record_payload r))))"
        using r by (simp add: scan_record)
      then show ?thesis
        by (simp add: block)
    next
      case marker: False
      with "1.prems" False len have "param_block_ok (drop 22 block)"
        by (subst (asm) param_block_ok.simps) simp
      with False len marker
      have "\<exists>code. get_compression_type_from ((pre @ r) @ drop 22 block) (int (length (pre @ r))) = Inr code"
        by (intro "1.IH") auto
      then obtain code where
        "get_compression_type_from (pre @ r @ rest) (int (length pre) + 22) = Inr code"
        using r by (auto simp: rest)
      moreover from marker have "record_type_id r \<noteq> 10"
        by (simp add: fields)
      then have "get_compression_type_from (pre @ r @ rest) (int (length pre)) =
          get_compression_type_from (pre @ r @ rest) (int (length pre) + 22)"
        using r by (simp add: scan_record)
      ultimately show ?thesis
        by (simp add: block)
    qed
  qed
qed

lemma param_block_scan:
  assumes "param_block_ok block"
  shows "\<exists>code. get_compression_type block = Inr code"
  using param_block_scan_from [OF assms, of "[]"] by (simp add: get_compression_type_def)

lemma sound_packet_chunks_at:
  assumes "parameters_size h \<le> packet_size h" and "pe + packet_size h \<le> int (length data)"
    and "param_block_ok (take (nat (parameters_size h)) (drop (nat pe) data))"
    and "0 \<le> pe" and "0 \<le> parameters_size h"
  shows "\<not> isl (packet_chunks data pe h)"
proof -
  from assms(1,2,4,5)
  have "int (length (py_slice data (pe + parameters_size h) (pe + packet_size h))) =
      packet_size h - parameters_size h"
    by (simp add: length_py_slice)
  with assms(1) have raw: "struct_unpack_s (packet_size h - parameters_size h)
      (py_slice data (pe + parameters_size h) (pe + packet_size h)) =
      Inr (py_slice data (pe + parameters_size h) (pe + packet_size h))"
    by (simp add: struct_unpack_s_def)
  from assms(4,5) have "nat (pe + parameters_size h) - nat pe = nat (parameters_size h)"
    by simp
  with assms(4,5) have "py_slice data pe (pe + parameters_size h) =
      take (nat (parameters_size h)) (drop (nat pe) data)"
    by (simp add: py_slice_nat)
  with assms(3) obtain code where
    "get_compression_type (py_slice data pe (pe + parameters_size h)) = Inr code"
    by (auto dest: param_block_scan)
  with raw show ?thesis
    by (simp add: packet_chunks_def Let_def)
qed

section \<open>Facts about the loop of the generator\<close>

lemma gen_prepend_sel [simp]:
  "raised (gen_prepend ys g) = raised g" "yielded (gen_prepend ys g) = ys @ yielded g"
  by (cases g; simp)+

lemma chunks_loop_header_fail:
  "get_packet_header (py_slice data c (c + 28)) = Inl e \<Longrightarrow> chunks_loop data c = Gen [] (Some e)"
  by (subst chunks_loop.simps) simp

lemma chunks_loop_chunks_fail:
  "get_packet_header (py_slice data c (c + 28)) = Inr h \<Longrightarrow>
   packet_chunks data (c + 28) h = Inl e \<Longrightarrow> chunks_loop data c = Gen [] (Some e)"
  by (subst chunks_loop.simps) simp

lemma chunks_loop_terminal:
  "get_packet_header (py_slice data c (c + 28)) = Inr h \<Longrightarrow>
   packet_chunks data (c + 28) h = Inr ys \<Longrightarrow> packet_type h = 7 \<Longrightarrow>
   chunks_loop data c = Gen ys None"
  by (subst chunks_loop.simps) simp

lemma chunks_loop_next:
  "get_packet_header (py_slice data c (c + 28)) = Inr h \<Longrightarrow>
   packet_chunks data (c + 28) h = Inr ys \<Longrightarrow> packet_type h \<noteq> 7 \<Longrightarrow>
   chunks_loop data c = gen_prepend ys (chunks_loop data (c + packet_size h + 28))"
  by (subst chunks_loop.simps) simp

lemma packets_decoded_header_fail:
  "get_packet_header (py_slice data c (c + 28)) = Inl e \<Longrightarrow> packets_decoded data c = []"
  by (subst packets_decoded.simps) simp

lemma packets_decoded_chunks_fail:
  "get_packet_header (py_slice data c (c + 28)) = Inr h \<Longrightarrow>
   packet_chunks data (c + 28) h = Inl e \<Longrightarrow> packets_decoded data c = [(c, h)]"
  by (subst packets_decoded.simps) simp

lemma packets_decoded_terminal:
  "get_packet_header (py_slice data c (c + 28)) = Inr h \<Longrightarrow> packet_type h = 7 \<Longrightarrow>
   packets_decoded data c = [(c, h)]"
  by (subst packets_decoded.simps) (simp split: sum.splits)

lemma packets_decoded_next:
  "get_packet_header (py_slice data c (c + 28)) = Inr h \<Longrightarrow>
   packet_chunks data (c + 28) h = Inr ys \<Longrightarrow> packet_type h \<noteq> 7 \<Longrightarrow>
   packets_decoded data c = (c, h) # packets_decoded data (c + packet_size h + 28)"
  by (subst packets_decoded.simps) simp

lemma media_packet_not_terminal: "media_packet h \<Longrightarrow> packet_type h \<noteq> 7"
  by (auto simp: media_packet_def)

lemma packet_chunks_not_media: "\<not> media_packet h \<Longrightarrow> packet_chunks data pe h = Inr []"
  by (simp add: packet_chunks_def)

text \<open>Case analysis of one turn of the loop.\<close>

lemma loop_cases [case_names header_fail chunks_fail terminal advance]:
  assumes "\<And>e. get_packet_header (py_slice data c (c + 28)) = Inl e \<Longrightarrow> P"
    and "\<And>h e. get_packet_header (py_slice data c (c + 28)) = Inr h \<Longrightarrow>
           packet_chunks data (c + 28) h = Inl e \<Longrightarrow> P"
    and "\<And>h. get_packet_header (py_slice data c (c + 28)) = Inr h \<Longrightarrow>
           packet_chunks data (c + 28) h = Inr [] \<Longrightarrow> packet_type h = 7 \<Longrightarrow> P"
    and "\<And>h ys. get_packet_header (py_slice data c (c + 28)) = Inr h \<Longrightarrow>
           packet_chunks data (c + 28) h = Inr ys \<Longrightarrow> packet_type h \<noteq> 7 \<Longrightarrow> P"
  shows P
proof (cases "get_packet_header (py_slice data c (c + 28))")
  case (Inl e)
  then show ?thesis by (rule assms(1))
next
  case (Inr h)
  show ?thesis
  proof (cases "packet_chunks data (c + 28) h")
    case (Inl e)
    with Inr show ?thesis by (rule assms(2))
  next
    case chunks: (Inr ys)
    show ?thesis
    proof (cases "packet_type h = 7")
      case True
      then have "\<not> media_packet h"
        by (auto dest: media_packet_not_terminal)
      then have "packet_chunks data (c + 28) h = Inr []"
        by (rule packet_chunks_not_media)
      with Inr show ?thesis using True by (rule assms(3))
    next
      case False
      with Inr chunks show ?thesis by (rule assms(4))
    qed
  qed
qed

text \<open>Induction along the cursors of the loop.\<close>

lemma loop_induct [case_names header_fail chunks_fail terminal advance]:
  assumes "\<And>data c e. get_packet_header (py_slice data c (c + 28)) = Inl e \<Longrightarrow> P data c"
    and "\<And>data c h e. get_packet_header (py_slice data c (c + 28)) = Inr h \<Longrightarrow>
           packet_chunks data (c + 28) h = Inl e \<Longrightarrow> P data c"
    and "\<And>data c h. get_packet_header (py_slice data c (c + 28)) = Inr h \<Longrightarrow>
           packet_chunks data (c + 28) h = Inr [] \<Longrightarrow> packet_type h = 7 \<Longrightarrow> P data c"
    and "\<And>data c h ys. get_packet_header (py_slice data c (c + 28)) = Inr h \<Longrightarrow>
           packet_chunks data (c + 28) h = Inr ys \<Longrightarrow> packet_type h \<noteq> 7 \<Longrightarrow>
           P data (c + packet_size h + 28) \<Longrightarrow> P data c"
  shows "P data c"
proof (induction data c rule: chunks_loop.induct)
  case (1 data c)
  show ?case
  proof (cases data c rule: loop_cases)
    case (header_fail e)
    then show ?thesis by (rule assms(1))
  next
    case (chunks_fail h e)
    then show ?thesis by (rule assms(2))
  next
    case (terminal h)
    then show ?thesis by (rule assms(3))
  next
    case (advance h ys)
    then have "P data (c + packet_size h + 28)"
      using "1.IH" by simp
    with advance show ?thesis by (rule assms(4))
  qed
qed

lemma packets_decoded_cursor:
  "(c', h) \<in> set (packets_decoded data c) \<Longrightarrow> c \<le> c'"
proof (induction data c rule: loop_induct)
  case (advance data c h0 ys)
  from advance.hyps have "0 \<le> packet_size h0"
    by (auto dest: get_packet_header_Inr)
  with advance show ?case
    by (auto simp: packets_decoded_next)
qed (auto simp: packets_decoded_header_fail packets_decoded_chunks_fail packets_decoded_terminal)

lemma packets_decoded_header:
  "(c', h) \<in> set (packets_decoded data c) \<Longrightarrow>
   get_packet_header (py_slice data c' (c' + 28)) = Inr h"
  by (induction data c rule: loop_induct)
    (auto simp: packets_decoded_header_fail packets_decoded_chunks_fail packets_decoded_terminal packets_decoded_next)

lemma raised_along:
  "(c', h) \<in> set (packets_decoded data c) \<Longrightarrow>
   raised (chunks_loop data c) = raised (chunks_loop data c')"
  by (induction data c rule: loop_induct)
    (auto simp: packets_decoded_header_fail packets_decoded_chunks_fail packets_decoded_terminal packets_decoded_next
      chunks_loop_next)

lemma raised_StructError: "raised (chunks_loop data c) = Some e \<Longrightarrow> e = StructError"
  by (induction data c rule: loop_induct)
    (auto simp: chunks_loop_header_fail chunks_loop_chunks_fail chunks_loop_terminal
      chunks_loop_next dest: get_packet_header_error packet_chunks_error)

lemma packets_decoded_butlast:
  "p \<in> set (butlast (packets_decoded data c)) \<Longrightarrow> packet_type (snd p) \<noteq> 7"
proof (induction data c rule: loop_induct)
  case (advance data c h ys)
  then show ?case
    by (auto simp: packets_decoded_next split: if_splits)
qed (auto simp: packets_decoded_header_fail packets_decoded_chunks_fail packets_decoded_terminal)

lemma packets_decoded_terminal_last:
  "(c', h) \<in> set (packets_decoded data c) \<Longrightarrow> packet_type h = 7 \<Longrightarrow>
   last (packets_decoded data c) = (c', h)"
proof (induction data c rule: loop_induct)
  case (advance data c h0 ys)
  then show ?case
    by (auto simp: packets_decoded_next)
qed (auto simp: packets_decoded_header_fail packets_decoded_chunks_fail packets_decoded_terminal)

text \<open>A run that ends without an exception: every packet decoded yielded its chunks.\<close>

lemma run_ok_packets:
  "raised (chunks_loop data c) = None \<Longrightarrow>
   packets_decoded data c \<noteq> [] \<and> packet_type (snd (last (packets_decoded data c))) = 7"
proof (induction data c rule: loop_induct)
  case (advance data c h ys)
  then show ?case
    by (auto simp: packets_decoded_next chunks_loop_next)
qed (auto simp: chunks_loop_header_fail chunks_loop_chunks_fail packets_decoded_chunks_fail packets_decoded_terminal)

lemma run_ok_chunks:
  "raised (chunks_loop data c) = None \<Longrightarrow> (c', h) \<in> set (packets_decoded data c) \<Longrightarrow>
   \<exists>ys. packet_chunks data (c' + 28) h = Inr ys"
proof (induction data c rule: loop_induct)
  case (advance data c h0 ys)
  then show ?case
    by (auto simp: packets_decoded_next chunks_loop_next)
qed (auto simp: chunks_loop_header_fail chunks_loop_chunks_fail packets_decoded_chunks_fail packets_decoded_terminal)

lemma yielded_concat:
  "yielded (chunks_loop data c) =
   concat (map (\<lambda>(c', h). case packet_chunks data (c' + 28) h of Inl e \<Rightarrow> [] | Inr ys \<Rightarrow> ys)
     (packets_decoded data c))"
  by (induction data c rule: loop_induct)
    (auto simp: chunks_loop_header_fail chunks_loop_chunks_fail chunks_loop_terminal
      chunks_loop_next packets_decoded_header_fail packets_decoded_chunks_fail packets_decoded_terminal packets_decoded_next)

lemma header_cursor_nonneg:
  assumes "header_cursor data c"
  shows "0 \<le> c"
proof (cases "c = 0")
  case True
  then show ?thesis by simp
next
  case False
  with assms obtain c0 h0 where
    mem: "(c0, h0) \<in> set (packets_decoded data 0)" and c: "c = c0 + packet_size h0 + 28"
    by (auto simp: header_cursor_def)
  from mem have "0 \<le> c0"
    by (rule packets_decoded_cursor)
  moreover from packets_decoded_header [OF mem] have "0 \<le> packet_size h0"
    by (rule get_packet_header_Inr)
  ultimately show ?thesis
    using c by simp
qed

lemma raised_header_cursor:
  assumes "header_cursor data c"
  shows "raised (chunks_loop data 0) = raised (chunks_loop data c)"
proof (cases "c = 0")
  case True
  then show ?thesis by simp
next
  case False
  with assms obtain c0 h0 where
    mem: "(c0, h0) \<in> set (packets_decoded data 0)" and
    ok: "\<not> isl (packet_chunks data (c0 + 28) h0)" and
    nt: "packet_type h0 \<noteq> 7" and c: "c = c0 + packet_size h0 + 28"
    by (auto simp: header_cursor_def)
  from ok obtain ys where ys: "packet_chunks data (c0 + 28) h0 = Inr ys"
    by (cases "packet_chunks data (c0 + 28) h0") auto
  from mem have "raised (chunks_loop data 0) = raised (chunks_loop data c0)"
    by (rule raised_along)
  also from packets_decoded_header [OF mem] ys nt
  have "chunks_loop data c0 = gen_prepend ys (chunks_loop data c)"
    unfolding c by (rule chunks_loop_next)
  finally show ?thesis by simp
qed

lemma convert_to_mp3_raised:
  "raised (chunks_loop data 0) = Some e \<Longrightarrow> convert_to_mp3 (Some data) = Inl e"
  by (cases "chunks_loop data 0") (simp add: convert_to_mp3_def chunks_generator_def)

lemma raised_packet:
  assumes "(c', h) \<in> set (packets_decoded data 0)"
    and "raised (chunks_loop data c') = Some e"
  shows "raised (chunks_generator (Some data)) = Some e \<and> convert_to_mp3 (Some data) = Inl e"
proof -
  from assms(1) have "raised (chunks_loop data 0) = raised (chunks_loop data c')"
    by (rule raised_along)
  with assms(2) have "raised (chunks_loop data 0) = Some e"
    by simp
  then show ?thesis
    by (simp add: chunks_generator_def convert_to_mp3_raised)
qed

lemma packet_chunks_agree:
  assumes "take n d' = take n d" and "0 \<le> pe" and "0 \<le> parameters_size h"
    and "pe + packet_size h \<le> int n" and "packet_chunks d pe h = Inr ys"
  shows "packet_chunks d' pe h = Inr ys"
proof (cases "media_packet h")
  case False
  with assms(5) show ?thesis
    by (simp add: packet_chunks_not_media)
next
  case True
  then have le: "parameters_size h \<le> packet_size h"
    using assms(5) by (rule packet_chunks_sizes)
  with assms(1-4) have
    "py_slice d' (pe + parameters_size h) (pe + packet_size h) =
     py_slice d (pe + parameters_size h) (pe + packet_size h)"
    by (intro py_slice_agree) auto
  moreover from le assms(1-4) have
    "py_slice d' pe (pe + parameters_size h) = py_slice d pe (pe + parameters_size h)"
    by (intro py_slice_agree) auto
  ultimately have "packet_chunks d' pe h = packet_chunks d pe h"
    by (simp add: packet_chunks_def Let_def)
  with assms(5) show ?thesis
    by simp
qed

lemma prefix_run:
  assumes "raised (chunks_loop data c) = None" and "0 \<le> c"
    and "take n data' = take n data"
    and "fst (last (packets_decoded data c)) + 28 \<le> int n"
  shows "chunks_loop data' c = chunks_loop data c"
  using assms
proof (induction data c rule: loop_induct)
  case (header_fail data c e)
  then show ?case
    by (simp add: chunks_loop_header_fail)
next
  case (chunks_fail data c h e)
  then show ?case
    by (simp add: chunks_loop_chunks_fail)
next
  case (terminal data c h)
  from terminal.hyps have pd: "packets_decoded data c = [(c, h)]"
    by (simp add: packets_decoded_terminal)
  with terminal.prems have n: "c + 28 \<le> int n"
    by simp
  with terminal.prems have "py_slice data' c (c + 28) = py_slice data c (c + 28)"
    by (intro py_slice_agree) auto
  with terminal.hyps have hd: "get_packet_header (py_slice data' c (c + 28)) = Inr h"
    by simp
  from terminal.hyps have "\<not> media_packet h"
    by (auto dest: media_packet_not_terminal)
  then have "packet_chunks data' (c + 28) h = Inr []"
    by (rule packet_chunks_not_media)
  with hd terminal.hyps show ?case
    by (simp add: chunks_loop_terminal)
next
  case (advance data c h ys)
  let ?c = "c + packet_size h + 28"
  from advance.hyps have size: "0 \<le> packet_size h" "0 \<le> parameters_size h"
    by (auto dest: get_packet_header_Inr)
  from advance.hyps advance.prems(1) have ok: "raised (chunks_loop data ?c) = None"
    by (simp add: chunks_loop_next)
  then have ne: "packets_decoded data ?c \<noteq> []"
    by (simp add: run_ok_packets)
  then have "last (packets_decoded data ?c) \<in> set (packets_decoded data ?c)"
    by simp
  then have "(fst (last (packets_decoded data ?c)), snd (last (packets_decoded data ?c)))
      \<in> set (packets_decoded data ?c)"
    by simp
  then have "?c \<le> fst (last (packets_decoded data ?c))"
    by (rule packets_decoded_cursor)
  moreover from advance.hyps ne have "last (packets_decoded data c) = last (packets_decoded data ?c)"
    by (simp add: packets_decoded_next)
  ultimately have n: "?c + 28 \<le> int n" and
    lst: "fst (last (packets_decoded data ?c)) + 28 \<le> int n"
    using advance.prems(4) by simp_all
  from size advance.prems(2) have "0 \<le> ?c"
    by simp
  with ok advance.prems(3) lst have rec: "chunks_loop data' ?c = chunks_loop data ?c"
    by (intro advance.IH) auto
  from n size advance.prems have "py_slice data' c (c + 28) = py_slice data c (c + 28)"
    by (intro py_slice_agree) auto
  with advance.hyps have hd: "get_packet_header (py_slice data' c (c + 28)) = Inr h"
    by simp
  from advance.prems(3) have "packet_chunks data' (c + 28) h = Inr ys"
  proof (rule packet_chunks_agree)
    show "0 \<le> c + 28" using advance.prems(2) by simp
    show "0 \<le> parameters_size h" by (rule size)
    show "c + 28 + packet_size h \<le> int n" using n by simp
    show "packet_chunks data (c + 28) h = Inr ys" by (rule advance.hyps)
  qed
  with hd advance.hyps rec show ?case
    by (simp add: chunks_loop_next)
qed

lemma terminal_run:
  assumes "(c', h) \<in> set (packets_decoded data c)" and "packet_type h = 7"
  shows "raised (chunks_loop data c) = None"
proof -
  from assms(1) have hd: "get_packet_header (py_slice data c' (c' + 28)) = Inr h"
    by (rule packets_decoded_header)
  from assms(2) have "\<not> media_packet h"
    by (auto dest: media_packet_not_terminal)
  then have "packet_chunks data (c' + 28) h = Inr []"
    by (rule packet_chunks_not_media)
  with hd assms(2) have "chunks_loop data c' = Gen [] None"
    by (simp add: chunks_loop_terminal)
  with raised_along [OF assms(1)] show ?thesis
    by simp
qed

text \<open>The run ends without an exception exactly when the walk reaches a packet of type 7.\<close>

lemma run_ok_iff:
  "raised (chunks_loop data c) = None \<longleftrightarrow>
   (\<exists>p \<in> set (packets_decoded data c). packet_type (snd p) = 7)"
proof
  assume "raised (chunks_loop data c) = None"
  then have "packets_decoded data c \<noteq> []"
    and "packet_type (snd (last (packets_decoded data c))) = 7"
    by (simp_all add: run_ok_packets)
  then show "\<exists>p \<in> set (packets_decoded data c). packet_type (snd p) = 7"
    by (intro bexI [of _ "last (packets_decoded data c)"]) simp_all
next
  assume "\<exists>p \<in> set (packets_decoded data c). packet_type (snd p) = 7"
  then obtain c' h where "(c', h) \<in> set (packets_decoded data c)" and "packet_type h = 7"
    by auto
  then show "raised (chunks_loop data c) = None"
    by (rule terminal_run)
qed

lemma packet_chunks_media:
  assumes "media_packet h" and "packet_chunks data (c + 28) h = Inr ys"
    and "0 \<le> c" and "0 \<le> parameters_size h"
  shows "\<exists>ch. ys = [ch] \<and> chunk_of_packet data (c, h) ch"
proof -
  from assms(3) have "0 \<le> c + 28"
    by simp
  from packet_chunks_media_slices [OF assms(1,2) this assms(4)] show ?thesis
    by (auto simp: chunk_of_packet_def)
qed

lemma run_ok_media_chunks:
  assumes "raised (chunks_loop data c) = None" and "0 \<le> c"
  shows "list_all2 (chunk_of_packet data)
           (filter (\<lambda>p. media_packet (snd p)) (packets_decoded data c))
           (yielded (chunks_loop data c))"
  using assms
proof (induction data c rule: loop_induct)
  case (header_fail data c e)
  then show ?case
    by (simp add: chunks_loop_header_fail)
next
  case (chunks_fail data c h e)
  then show ?case
    by (simp add: chunks_loop_chunks_fail)
next
  case (terminal data c h)
  then have "\<not> media_packet h"
    by (auto dest: media_packet_not_terminal)
  with terminal show ?case
    by (simp add: chunks_loop_terminal packets_decoded_terminal)
next
  case (advance data c h ys)
  let ?c = "c + packet_size h + 28"
  from advance.hyps have size: "0 \<le> packet_size h" "0 \<le> parameters_size h"
    by (auto dest: get_packet_header_Inr)
  from advance.hyps advance.prems(1) have "raised (chunks_loop data ?c) = None"
    by (simp add: chunks_loop_next)
  moreover from size advance.prems(2) have "0 \<le> ?c"
    by simp
  ultimately have rec: "list_all2 (chunk_of_packet data)
      (filter (\<lambda>p. media_packet (snd p)) (packets_decoded data ?c)) (yielded (chunks_loop data ?c))"
    by (rule advance.IH)
  show ?case
  proof (cases "media_packet h")
    case True
    then obtain ch where "ys = [ch]" and "chunk_of_packet data (c, h) ch"
      using advance.hyps(2) advance.prems(2) size(2) by (blast dest: packet_chunks_media)
    with True advance.hyps rec show ?thesis
      by (simp add: chunks_loop_next packets_decoded_next)
  next
    case False
    then have "packet_chunks data (c + 28) h = Inr []"
      by (rule packet_chunks_not_media)
    with advance.hyps have "ys = []"
      by simp
    with False advance.hyps rec show ?thesis
      by (simp add: chunks_loop_next packets_decoded_next)
  qed
qed

text \<open>The walk of the loop and the layout of the container.\<close>

lemma packet_chain_header_fail:
  "get_packet_header (py_slice data c (c + 28)) = Inl e \<Longrightarrow> packet_chain data c = []"
  by (subst packet_chain.simps) simp

lemma packet_chain_terminal:
  "get_packet_header (py_slice data c (c + 28)) = Inr h \<Longrightarrow> packet_type h = 7 \<Longrightarrow>
   packet_chain data c = [(c, h)]"
  by (subst packet_chain.simps) simp

lemma packet_chain_next:
  "get_packet_header (py_slice data c (c + 28)) = Inr h \<Longrightarrow> packet_type h \<noteq> 7 \<Longrightarrow>
   packet_chain data c = (c, h) # packet_chain data (c + packet_size h + 28)"
  by (subst packet_chain.simps) simp

lemma packet_chain_cursor:
  "(c', h) \<in> set (packet_chain data c) \<Longrightarrow> c \<le> c'"
proof (induction data c rule: packet_chain.induct)
  case (1 data c)
  show ?case
  proof (cases "get_packet_header (py_slice data c (c + 28))")
    case (Inl e)
    with "1.prems" show ?thesis
      by (simp add: packet_chain_header_fail)
  next
    case (Inr h0)
    then have size: "0 \<le> packet_size h0"
      by (rule get_packet_header_Inr)
    show ?thesis
    proof (cases "packet_type h0 = 7")
      case True
      with Inr "1.prems" show ?thesis
        by (simp add: packet_chain_terminal)
    next
      case False
      with Inr "1.prems" have "c' = c \<or> (c', h) \<in> set (packet_chain data (c + packet_size h0 + 28))"
        by (auto simp: packet_chain_next)
      with "1.IH" [OF Inr False] size show ?thesis
        by auto
    qed
  qed
qed

lemma packet_chain_header:
  "(c', h) \<in> set (packet_chain data c) \<Longrightarrow>
   get_packet_header (py_slice data c' (c' + 28)) = Inr h"
proof (induction data c rule: packet_chain.induct)
  case (1 data c)
  show ?case
  proof (cases "get_packet_header (py_slice data c (c + 28))")
    case (Inl e)
    with "1.prems" show ?thesis
      by (simp add: packet_chain_header_fail)
  next
    case (Inr h0)
    show ?thesis
    proof (cases "packet_type h0 = 7")
      case True
      with Inr "1.prems" show ?thesis
        by (simp add: packet_chain_terminal)
    next
      case False
      with Inr "1.prems" have "(c', h) = (c, h0) \<or> (c', h) \<in> set (packet_chain data (c + packet_size h0 + 28))"
        by (auto simp: packet_chain_next)
      with "1.IH" [OF Inr False] Inr show ?thesis
        by auto
    qed
  qed
qed

lemma chain_decoded:
  "\<forall>p \<in> set (packet_chain data c). \<not> isl (packet_chunks data (fst p + 28) (snd p)) \<Longrightarrow>
   packets_decoded data c = packet_chain data c"
proof (induction data c rule: loop_induct)
  case (header_fail data c e)
  then show ?case
    by (simp add: packets_decoded_header_fail packet_chain_header_fail)
next
  case (chunks_fail data c h e)
  have "(c, h) \<in> set (packet_chain data c)"
    using chunks_fail.hyps(1) by (subst packet_chain.simps) simp
  with chunks_fail.prems have "\<not> isl (packet_chunks data (c + 28) h)"
    by fastforce
  with chunks_fail.hyps show ?case
    by simp
next
  case (terminal data c h)
  then show ?case
    by (simp add: packets_decoded_terminal packet_chain_terminal)
next
  case (advance data c h ys)
  then show ?case
    by (simp add: packets_decoded_next packet_chain_next)
qed

lemma sound_packet_chunks:
  assumes "packet_sound data (c, h)" and "0 \<le> c" and "0 \<le> parameters_size h"
  shows "\<not> isl (packet_chunks data (c + 28) h)"
proof (cases "media_packet h")
  case False
  then show ?thesis
    by (simp add: packet_chunks_not_media)
next
  case True
  with assms(1) have "parameters_size h \<le> packet_size h"
    and "c + 28 + packet_size h \<le> int (length data)"
    and "param_block_ok (take (nat (parameters_size h)) (drop (nat (c + 28)) data))"
    by (simp_all add: packet_sound_def)
  moreover from assms(2) have "0 \<le> c + 28"
    by simp
  ultimately show ?thesis
    using assms(3) by (rule sound_packet_chunks_at)
qed

lemma sound_chain_decoded:
  assumes "\<forall>p \<in> set (packet_chain data 0). packet_sound data p"
  shows "packets_decoded data 0 = packet_chain data 0"
proof (rule chain_decoded, rule ballI)
  fix p
  assume p: "p \<in> set (packet_chain data 0)"
  obtain c h where ch: "p = (c, h)"
    by (cases p)
  from p ch have "0 \<le> c"
    by (auto dest: packet_chain_cursor)
  moreover from p ch have "0 \<le> parameters_size h"
    by (auto dest: packet_chain_header get_packet_header_Inr)
  moreover from assms p ch have "packet_sound data (c, h)"
    by auto
  ultimately show "\<not> isl (packet_chunks data (fst p + 28) (snd p))"
    unfolding ch by (simp add: sound_packet_chunks)
qed

lemma sound_chain_run:
  assumes "\<forall>p \<in> set (packet_chain data 0). packet_sound data p"
    and "(c', h) \<in> set (packet_chain data 0)" and "packet_type h = 7"
  shows "packets_decoded data 0 = packet_chain data 0"
    and "raised (chunks_loop data 0) = None"
    and "list_all2 (chunk_of_packet data)
           (filter (\<lambda>p. media_packet (snd p)) (packet_chain data 0))
           (yielded (chunks_loop data 0))"
proof -
  from assms(1) show eq: "packets_decoded data 0 = packet_chain data 0"
    by (rule sound_chain_decoded)
  with assms(2) have "(c', h) \<in> set (packets_decoded data 0)"
    by simp
  then show ok: "raised (chunks_loop data 0) = None"
    using assms(3) by (rule terminal_run)
  then have "list_all2 (chunk_of_packet data)
      (filter (\<lambda>p. media_packet (snd p)) (packets_decoded data 0)) (yielded (chunks_loop data 0))"
    by (rule run_ok_media_chunks) simp
  with eq show "list_all2 (chunk_of_packet data)
      (filter (\<lambda>p. media_packet (snd p)) (packet_chain data 0)) (yielded (chunks_loop data 0))"
    by simp
qed

section \<open>Facts about the accumulation\<close>

lemma stream_bytes_simps [simp]:
  "stream_bytes k [] = []"
  "stream_bytes k ((c, sid, raw) # chunks) =
     (if sid = k then raw @ stream_bytes k chunks else stream_bytes k chunks)"
  by (simp_all add: stream_bytes_def)

lemma foldl_consume_chunk:
  "foldl consume_chunk \<lparr>audio_chunks = [(0, a), (1, b)], compression = v\<rparr> chunks =
   \<lparr>audio_chunks = [(0, a @ stream_bytes 0 chunks), (1, b @ stream_bytes 1 chunks)],
    compression = (if chunks = [] then v else Bound (fst (last chunks)))\<rparr>"
proof (induction chunks arbitrary: a b v)
  case Nil
  show ?case by simp
next
  case (Cons ch chunks)
  obtain c sid raw where ch: "ch = (c, sid, raw)"
    by (cases ch)
  show ?case
    unfolding ch by (simp add: dict_append_def Cons.IH)
qed

lemma accumulate_eq:
  "accumulate chunks =
   \<lparr>audio_chunks = [(0, stream_bytes 0 chunks), (1, stream_bytes 1 chunks)],
    compression = (if chunks = [] then Unbound else Bound (fst (last chunks)))\<rparr>"
  by (simp add: accumulate_def conv_init_def foldl_consume_chunk)

lemma formats_item_0: "formats_item 0 = Inr ''g729''"
  by (simp add: formats_item_def formats_def)

lemma convert_chunks_empty: "convert_chunks [] = Inl UnboundLocalError"
  by (simp add: convert_chunks_def accumulate_eq select_format_def)

lemma convert_chunks_nonempty:
  assumes "chunks \<noteq> []"
  shows "convert_chunks chunks =
         bind_err (case fst (last chunks) of None \<Rightarrow> Inr ''g729'' | Some c \<Rightarrow> formats_item c)
           (\<lambda>format.
              Inr [\<lparr>input_format = format, output_file = Temp_caller,
                     stdin_bytes = stream_bytes 0 chunks\<rparr>,
                   \<lparr>input_format = format, output_file = Temp_receiver,
                     stdin_bytes = stream_bytes 1 chunks\<rparr>])"
proof (cases "fst (last chunks)")
  case None
  with assms show ?thesis
    by (simp add: convert_chunks_def accumulate_eq select_format_def formats_item_0)
next
  case (Some c)
  with assms show ?thesis
    by (cases "formats_item c")
      (simp_all add: convert_chunks_def accumulate_eq select_format_def)
qed

section \<open>The claims\<close>

text \<open>
  C1, as the code has it. The loop makes no check of \<open>packet_size\<close> against
  \<open>parameters_size\<close>. For a media packet met during the run with
  \<open>packet_size < parameters_size\<close> the chunk length is negative, the format of the payload
  is not a format, and \<^verbatim>\<open>struct.unpack\<close> raises \<^verbatim>\<open>struct.error\<close>: no chunk is yielded for
  the packet, the generator ends and \<^verbatim>\<open>convert_to_mp3\<close> is left for this file.
\<close>

theorem negative_payload_raises:
  assumes "(c', h) \<in> set (packets_decoded data 0)"
    and "media_packet h" and "packet_size h < parameters_size h"
  shows "packet_chunks data (c' + 28) h = Inl StructError \<and>
         chunks_loop data c' = Gen [] (Some StructError) \<and>
         raised (chunks_generator (Some data)) = Some StructError \<and>
         convert_to_mp3 (Some data) = Inl StructError"
proof -
  from assms(2,3) have pc: "packet_chunks data (c' + 28) h = Inl StructError"
    by (rule packet_chunks_negative)
  from assms(1) have "get_packet_header (py_slice data c' (c' + 28)) = Inr h"
    by (rule packets_decoded_header)
  then have loop: "chunks_loop data c' = Gen [] (Some StructError)"
    using pc by (rule chunks_loop_chunks_fail)
  then have "raised (chunks_loop data c') = Some StructError"
    by simp
  with assms(1) have "raised (chunks_generator (Some data)) = Some StructError \<and>
      convert_to_mp3 (Some data) = Inl StructError"
    by (rule raised_packet)
  with pc loop show ?thesis
    by simp
qed

theorem negative_payload_raises_witness:
  "(28, negative_header) \<in> set (packets_decoded negative_container 0) \<and>
   media_packet negative_header \<and> packet_size negative_header < parameters_size negative_header \<and>
   chunks_loop negative_container 28 = Gen [] (Some StructError) \<and>
   convert_to_mp3 (Some negative_container) = Inl StructError"
proof -
  have p: "(28, negative_header) \<in> set (packets_decoded negative_container 0)"
    by code_simp
  have m: "media_packet negative_header"
    by code_simp
  have n: "packet_size negative_header < parameters_size negative_header"
    by code_simp
  from negative_payload_raises [OF p m n] p m n show ?thesis
    by simp
qed

text \<open>
  C1, as it is stated, fails for a packet that is not a media packet: its sizes are never
  compared. The second packet of \<open>unchecked_container\<close> has \<open>packet_size < parameters_size\<close>,
  and the run ends without an exception, with the chunk of the first packet.
\<close>

theorem unchecked_packet_counterexample:
  "packets_decoded unchecked_container 0 =
     [(0, \<lparr>packet_type = 4, packet_subtype = 0, stream_id = 0, start_time = 0, end_time = 0,
            packet_size = 2, parameters_size = 0\<rparr>),
      (30, \<lparr>packet_type = 7, packet_subtype = 0, stream_id = 0, start_time = 0, end_time = 0,
            packet_size = 0, parameters_size = 1\<rparr>)] \<and>
   chunks_generator (Some unchecked_container) = Gen [(None, 0, [17, 34])] None \<and>
   convert_to_mp3 (Some unchecked_container) =
     Inr [\<lparr>input_format = ''g729'', output_file = Temp_caller, stdin_bytes = [17, 34]\<rparr>,
          \<lparr>input_format = ''g729'', output_file = Temp_receiver, stdin_bytes = []\<rparr>]"
  by code_simp

text \<open>
  C2. Where the loop expects a header and fewer than 28 bytes remain in the container,
  decoding the header fails. The exception is \<^verbatim>\<open>struct.error\<close>, the only exception of the
  parser; it is raised inside \<^verbatim>\<open>get_packet_header\<close>, ends the generator and leaves
  \<^verbatim>\<open>convert_to_mp3\<close> for this file.
\<close>

theorem truncated_header_raises:
  assumes "header_cursor data c" and "int (length data) - c < 28"
  shows "get_packet_header (py_slice data c (c + 28)) = Inl StructError \<and>
         chunks_loop data c = Gen [] (Some StructError) \<and>
         raised (chunks_generator (Some data)) = Some StructError \<and>
         convert_to_mp3 (Some data) = Inl StructError"
proof -
  from assms(1) have "0 \<le> c"
    by (rule header_cursor_nonneg)
  then have "length (py_slice data c (c + 28)) < 28"
    using assms(2) by (rule length_header_slice)
  then have hd: "get_packet_header (py_slice data c (c + 28)) = Inl StructError"
    by (rule get_packet_header_short)
  then have loop: "chunks_loop data c = Gen [] (Some StructError)"
    by (rule chunks_loop_header_fail)
  with raised_header_cursor [OF assms(1)]
  have r: "raised (chunks_loop data 0) = Some StructError"
    by simp
  with hd loop show ?thesis
    by (simp add: chunks_generator_def convert_to_mp3_raised)
qed

theorem truncated_header_raises_witness:
  "header_cursor truncated_container 30 \<and>
   int (length truncated_container) - 30 < 28 \<and>
   get_packet_header (py_slice truncated_container 30 58) = Inl StructError \<and>
   convert_to_mp3 (Some truncated_container) = Inl StructError"
proof -
  have c: "header_cursor truncated_container 30"
    by code_simp
  have l: "int (length truncated_container) - 30 < 28"
    by code_simp
  from truncated_header_raises [OF c l] c l show ?thesis
    by simp
qed

text \<open>
  C3. A decoded packet that is not of type 7 is one met before any packet of type 7 (the walk
  stops after such a packet). If its end, the cursor plus 28 plus \<open>packet_size\<close>, lies beyond
  the end of the container, the run raises: either the payload of the packet cannot be
  unpacked, or the next header cannot be decoded from the empty slice. The exception is
  \<^verbatim>\<open>struct.error\<close>; slices are clipped and nothing is read outside the container.
\<close>

theorem unterminated_raises:
  assumes "(c', h) \<in> set (packets_decoded data 0)"
    and "packet_type h \<noteq> 7"
    and "int (length data) < c' + 28 + packet_size h"
  shows "raised (chunks_generator (Some data)) = Some StructError \<and>
         convert_to_mp3 (Some data) = Inl StructError"
proof -
  from assms(1) have hd: "get_packet_header (py_slice data c' (c' + 28)) = Inr h"
    by (rule packets_decoded_header)
  have "raised (chunks_loop data c') = Some StructError"
  proof (cases "packet_chunks data (c' + 28) h")
    case (Inl e)
    then have "e = StructError"
      by (rule packet_chunks_error)
    with hd Inl show ?thesis
      by (simp add: chunks_loop_chunks_fail)
  next
    case (Inr ys)
    let ?n = "c' + packet_size h + 28"
    from assms(3) have "py_slice data ?n (?n + 28) = []"
      by (simp add: py_slice_beyond)
    then have "get_packet_header (py_slice data ?n (?n + 28)) = Inl StructError"
      by (simp add: get_packet_header_short)
    then have "chunks_loop data ?n = Gen [] (Some StructError)"
      by (rule chunks_loop_header_fail)
    with hd Inr assms(2) show ?thesis
      by (simp add: chunks_loop_next)
  qed
  with assms(1) show ?thesis
    by (rule raised_packet)
qed

theorem unterminated_raises_witness:
  "(28, unterminated_header) \<in> set (packets_decoded unterminated_container 0) \<and>
   packet_type unterminated_header \<noteq> 7 \<and>
   int (length unterminated_container) < 28 + 28 + packet_size unterminated_header \<and>
   raised (chunks_generator (Some unterminated_container)) = Some StructError \<and>
   convert_to_mp3 (Some unterminated_container) = Inl StructError"
proof -
  have p: "(28, unterminated_header) \<in> set (packets_decoded unterminated_container 0)"
    by code_simp
  have t: "packet_type unterminated_header \<noteq> 7"
    by code_simp
  have l: "int (length unterminated_container) < 28 + 28 + packet_size unterminated_header"
    by code_simp
  from unterminated_raises [OF p t l] p t l show ?thesis
    by simp
qed

text \<open>
  C4, as the code has it. Let the layout of the container hold a packet of type 7, and let
  every media packet of the layout be one that the loop can turn into its chunk. Then the
  loop decodes exactly the packets of the layout, of which the packet of type 7 is the last
  and occurs nowhere before; at its cursor the loop yields nothing and returns; the run ends
  without an exception, having yielded one chunk for each media packet before it, in order;
  and the bytes after its header do not matter: a container that agrees with this one up to
  the end of that header gives the same run.
\<close>

theorem terminal_packet_stops:
  assumes "(c', h) \<in> set (packet_chain data 0)" and "packet_type h = 7"
    and "\<forall>p \<in> set (packet_chain data 0). packet_sound data p"
    and "take (nat (c' + 28)) data' = take (nat (c' + 28)) data"
  shows "packets_decoded data 0 = packet_chain data 0 \<and>
         last (packet_chain data 0) = (c', h) \<and>
         (c', h) \<notin> set (butlast (packet_chain data 0)) \<and>
         chunks_loop data c' = Gen [] None \<and>
         raised (chunks_generator (Some data)) = None \<and>
         list_all2 (chunk_of_packet data)
           (filter (\<lambda>p. media_packet (snd p)) (packet_chain data 0))
           (yielded (chunks_generator (Some data))) \<and>
         chunks_generator (Some data') = chunks_generator (Some data)"
proof -
  note run = sound_chain_run [OF assms(3,1,2)]
  from assms(1) run(1) have mem: "(c', h) \<in> set (packets_decoded data 0)"
    by simp
  then have "last (packets_decoded data 0) = (c', h)"
    using assms(2) by (rule packets_decoded_terminal_last)
  with run(1) have lst: "last (packet_chain data 0) = (c', h)"
    by simp
  from assms(2) have "(c', h) \<notin> set (butlast (packets_decoded data 0))"
    by (auto dest: packets_decoded_butlast)
  with run(1) have nb: "(c', h) \<notin> set (butlast (packet_chain data 0))"
    by simp
  from assms(1) have hd: "get_packet_header (py_slice data c' (c' + 28)) = Inr h"
    by (rule packet_chain_header)
  from assms(2) have "\<not> media_packet h"
    by (auto dest: media_packet_not_terminal)
  then have "packet_chunks data (c' + 28) h = Inr []"
    by (rule packet_chunks_not_media)
  with hd have stop: "chunks_loop data c' = Gen [] None"
    using assms(2) by (rule chunks_loop_terminal)
  from assms(1) have "0 \<le> c'"
    by (rule packet_chain_cursor)
  with lst run(1) have "fst (last (packets_decoded data 0)) + 28 \<le> int (nat (c' + 28))"
    by simp
  with run(2) assms(4) have "chunks_loop data' 0 = chunks_loop data 0"
    by (intro prefix_run) auto
  with run lst nb stop show ?thesis
    by (simp add: chunks_generator_def)
qed

theorem terminal_packet_stops_witness:
  "(78, terminal_header) \<in> set (packet_chain (scenario_container @ [222, 173, 190, 239]) 0) \<and>
   packet_type terminal_header = 7 \<and>
   take (nat (78 + 28)) scenario_container =
     take (nat (78 + 28)) (scenario_container @ [222, 173, 190, 239]) \<and>
   last (packet_chain (scenario_container @ [222, 173, 190, 239]) 0) = (78, terminal_header) \<and>
   chunks_loop (scenario_container @ [222, 173, 190, 239]) 78 = Gen [] None \<and>
   length (yielded (chunks_generator (Some (scenario_container @ [222, 173, 190, 239])))) = 1 \<and>
   chunks_generator (Some scenario_container) =
     chunks_generator (Some (scenario_container @ [222, 173, 190, 239]))"
proof -
  have p: "(78, terminal_header) \<in> set (packet_chain (scenario_container @ [222, 173, 190, 239]) 0)"
    by code_simp
  have t: "packet_type terminal_header = 7"
    by code_simp
  have s: "\<forall>p \<in> set (packet_chain (scenario_container @ [222, 173, 190, 239]) 0).
      packet_sound (scenario_container @ [222, 173, 190, 239]) p"
    by code_simp
  have k: "take (nat (78 + 28)) scenario_container =
     take (nat (78 + 28)) (scenario_container @ [222, 173, 190, 239])"
    by code_simp
  have m: "length (filter (\<lambda>p. media_packet (snd p))
      (packet_chain (scenario_container @ [222, 173, 190, 239]) 0)) = 1"
    by code_simp
  from terminal_packet_stops [OF p t s k] p t k m show ?thesis
    by (auto dest: list_all2_lengthD)
qed

text \<open>
  C4, as it is stated, fails when a media packet before the packet of type 7 makes the loop
  raise. The layout of \<open>marker_two_container\<close> holds a packet of type 7 at cursor 52, but the
  marker of the first packet has data size 2: the scan raises \<^verbatim>\<open>struct.error\<close>, the header
  at 52 is never decoded and \<^verbatim>\<open>convert_to_mp3\<close> is left with the exception.
\<close>

theorem unreached_terminal_counterexample:
  "packet_chain marker_two_container 0 =
     [(0, \<lparr>packet_type = 4, packet_subtype = 0, stream_id = 0, start_time = 0, end_time = 0,
            packet_size = 24, parameters_size = 22\<rparr>),
      (52, \<lparr>packet_type = 7, packet_subtype = 0, stream_id = 0, start_time = 0, end_time = 0,
            packet_size = 0, parameters_size = 0\<rparr>)] \<and>
   packets_decoded marker_two_container 0 =
     [(0, \<lparr>packet_type = 4, packet_subtype = 0, stream_id = 0, start_time = 0, end_time = 0,
            packet_size = 24, parameters_size = 22\<rparr>)] \<and>
   chunks_generator (Some marker_two_container) = Gen [] (Some StructError) \<and>
   convert_to_mp3 (Some marker_two_container) = Inl StructError"
  by code_simp

text \<open>
  C5, as the code has it. For a well-formed container in which the parameter block of every
  media packet scans without an exception, the run ends without an exception; the chunks
  yielded are as many as the packets of the layout that satisfy the media predicate; and
  they correspond one to one, in order: \<open>chunk_of_packet\<close> gives each chunk the stream id of
  its packet, a payload of \<open>packet_size - parameters_size\<close> bytes, taken right after the
  parameter block, and the compression found in that block.
\<close>

theorem chunks_of_media_packets:
  assumes "well_formed data"
    and "\<forall>(c, h) \<in> set (packet_chain data 0).
           media_packet h \<longrightarrow>
           param_block_ok (take (nat (parameters_size h)) (drop (nat (c + 28)) data))"
  shows "raised (chunks_generator (Some data)) = None \<and>
         length (yielded (chunks_generator (Some data))) =
           length (filter (\<lambda>p. media_packet (snd p)) (packet_chain data 0)) \<and>
         list_all2 (chunk_of_packet data)
           (filter (\<lambda>p. media_packet (snd p)) (packet_chain data 0))
           (yielded (chunks_generator (Some data)))"
proof -
  from assms have sound: "\<forall>p \<in> set (packet_chain data 0). packet_sound data p"
    by (auto simp: well_formed_def packet_sound_def)
  from assms(1) have ne: "packet_chain data 0 \<noteq> []"
    and t: "packet_type (snd (last (packet_chain data 0))) = 7"
    by (simp_all add: well_formed_def)
  from ne have "(fst (last (packet_chain data 0)), snd (last (packet_chain data 0)))
      \<in> set (packet_chain data 0)"
    by simp
  note run = sound_chain_run [OF sound this t]
  from run(3) have "length (yielded (chunks_loop data 0)) =
      length (filter (\<lambda>p. media_packet (snd p)) (packet_chain data 0))"
    by (auto dest: list_all2_lengthD)
  with run show ?thesis
    by (simp add: chunks_generator_def)
qed

theorem chunks_of_media_packets_witness:
  "raised (chunks_generator (Some scenario_container)) = None \<and>
   length (filter (\<lambda>p. media_packet (snd p)) (packet_chain scenario_container 0)) = 1 \<and>
   list_all2 (chunk_of_packet scenario_container)
     (filter (\<lambda>p. media_packet (snd p)) (packet_chain scenario_container 0))
     [(Some 3, 0, [1, 2, 3, 4, 5, 6, 7, 8, 9, 10, 11, 12, 13, 14, 15, 16, 17, 18, 19, 20, 21,
        22, 23, 24, 25, 26, 27, 28])]"
proof -
  have w: "well_formed scenario_container"
    by code_simp
  have b: "\<forall>(c, h) \<in> set (packet_chain scenario_container 0).
           media_packet h \<longrightarrow>
           param_block_ok (take (nat (parameters_size h)) (drop (nat (c + 28)) scenario_container))"
    by code_simp
  have y: "yielded (chunks_generator (Some scenario_container)) =
     [(Some 3, 0, [1, 2, 3, 4, 5, 6, 7, 8, 9, 10, 11, 12, 13, 14, 15, 16, 17, 18, 19, 20, 21,
        22, 23, 24, 25, 26, 27, 28])]"
    by code_simp
  from chunks_of_media_packets [OF w b] y show ?thesis
    by simp
qed

text \<open>
  C5, as it is stated, fails on a well-formed container whose compression marker has a data
  size other than 1. \<open>marker_two_container\<close> is well-formed and has one media packet; the
  extractor of the specification gives 3 for its marker; the code raises \<^verbatim>\<open>struct.error\<close>
  and yields no chunk.
\<close>

theorem well_formed_raises_counterexample:
  "well_formed marker_two_container \<and>
   length (filter (\<lambda>p. media_packet (snd p)) (packet_chain marker_two_container 0)) = 1 \<and>
   spec_extract (record_payload (take 22 (drop 28 marker_two_container)))
     (record_data_size (take 22 (drop 28 marker_two_container))) = 3 \<and>
   yielded (chunks_generator (Some marker_two_container)) = [] \<and>
   raised (chunks_generator (Some marker_two_container)) = Some StructError"
  by code_simp

text \<open>
  C6, as the code has it. Over a block that starts with full records of 22 bytes whose type
  id is not 10: a full record with type id 10 that comes next gives the result of
  \<^verbatim>\<open>get_data_value\<close> on its payload and data size, whatever follows it; a block that ends
  there gives \<^verbatim>\<open>None\<close>; and a partial record of 1 to 21 bytes that comes next is read and
  makes \<^verbatim>\<open>struct.unpack\<close> raise \<^verbatim>\<open>struct.error\<close>.
\<close>

theorem scan_first_marker:
  assumes "\<forall>r \<in> set recs. length r = 22 \<and> record_type_id r \<noteq> 10"
  shows "(length m = 22 \<and> record_type_id m = 10 \<longrightarrow>
            get_compression_type (concat recs @ m @ rest) =
              bind_err (get_data_value (record_payload m) (record_data_size m))
                (\<lambda>code. Inr (Some code))) \<and>
         get_compression_type (concat recs) = Inr None \<and>
         (0 < length tail \<and> length tail < 22 \<longrightarrow>
            get_compression_type (concat recs @ tail) = Inl StructError)"
proof (intro conjI impI)
  assume m: "length m = 22 \<and> record_type_id m = 10"
  from assms have "get_compression_type_from ([] @ concat recs @ (m @ rest)) (int (length ([]::bytes))) =
      get_compression_type_from ([] @ concat recs @ (m @ rest)) (int (length ([] @ concat recs)))"
    by (rule scan_skip)
  then have "get_compression_type (concat recs @ m @ rest) =
      get_compression_type_from (concat recs @ m @ rest) (int (length (concat recs)))"
    by (simp add: get_compression_type_def)
  with m show "get_compression_type (concat recs @ m @ rest) =
      bind_err (get_data_value (record_payload m) (record_data_size m)) (\<lambda>code. Inr (Some code))"
    by (simp add: scan_record)
next
  from assms have "get_compression_type_from ([] @ concat recs @ []) (int (length ([]::bytes))) =
      get_compression_type_from ([] @ concat recs @ []) (int (length ([] @ concat recs)))"
    by (rule scan_skip)
  then show "get_compression_type (concat recs) = Inr None"
    by (simp add: get_compression_type_def scan_end)
next
  assume t: "0 < length tail \<and> length tail < 22"
  from assms have "get_compression_type_from ([] @ concat recs @ tail) (int (length ([]::bytes))) =
      get_compression_type_from ([] @ concat recs @ tail) (int (length ([] @ concat recs)))"
    by (rule scan_skip)
  then have "get_compression_type (concat recs @ tail) =
      get_compression_type_from (concat recs @ tail) (int (length (concat recs)))"
    by (simp add: get_compression_type_def)
  with t show "get_compression_type (concat recs @ tail) = Inl StructError"
    by (simp add: scan_partial)
qed

theorem scan_first_marker_witness:
  "length other_record = 22 \<and> record_type_id other_record = 1 \<and>
   length marker_record = 22 \<and> record_type_id marker_record = 10 \<and>
   get_compression_type (other_record @ marker_record @ [10, 0, 1, 0]) = Inr (Some (- 3)) \<and>
   get_compression_type other_record = Inr None \<and>
   get_compression_type (other_record @ [10, 0, 1, 0]) = Inl StructError"
proof -
  have o: "length other_record = 22 \<and> record_type_id other_record = 1"
    by code_simp
  then have a: "\<forall>r \<in> set [other_record]. length r = 22 \<and> record_type_id r \<noteq> 10"
    by simp
  have m: "length marker_record = 22 \<and> record_type_id marker_record = 10"
    by code_simp
  have v: "get_data_value (record_payload marker_record) (record_data_size marker_record) = Inr (- 3)"
    by code_simp
  have t: "0 < length [10, 0, 1, 0 :: byte] \<and> length [10, 0, 1, 0 :: byte] < 22"
    by simp
  from scan_first_marker [OF a, of marker_record "[10, 0, 1, 0]" "[10, 0, 1, 0]"] o m v t
  show ?thesis
    by simp
qed

text \<open>
  C6, as it is stated, fails on a trailing partial record: after one full record of type id
  1, four more bytes make the scan raise instead of returning \<^verbatim>\<open>None\<close>.
\<close>

theorem scan_partial_record_counterexample:
  "length other_record = 22 \<and> record_type_id other_record = 1 \<and>
   get_compression_type (other_record @ [10, 0, 1, 0]) = Inl StructError"
  by code_simp

text \<open>
  C7, as the code has it. For a payload of 16 bytes \<^verbatim>\<open>get_data_value\<close> returns the first
  byte, read as a signed 8-bit integer, when the data size is 1, and raises \<^verbatim>\<open>struct.error\<close>
  for every other data size: the last \<^verbatim>\<open>unpack("b", ...)\<close> takes the whole slice, not its
  first byte. The tuple held by \<open>data_value\<close> never equals 0, so the second read at offset 8
  is never made and the function is the composition of the two other \<open>unpack\<close> calls.
\<close>

theorem extract_single_byte:
  assumes "length payload = 16"
  shows "(data_size = 1 \<longrightarrow> get_data_value payload data_size = Inr (sint (hd payload))) \<and>
         (data_size \<noteq> 1 \<longrightarrow> get_data_value payload data_size = Inl StructError) \<and>
         PyTuple [v] \<noteq> PyInt 0 \<and>
         get_data_value payload data_size =
           bind_err (struct_unpack_s data_size (py_slice payload 0 data_size)) struct_unpack_b"
proof -
  from assms have "payload \<noteq> []"
    by auto
  then show ?thesis
    by (simp add: get_data_value_one get_data_value_not_one flip: get_data_value_no_fallback)
qed

theorem extract_single_byte_witness:
  "length marker_payload = 16 \<and> get_data_value marker_payload 1 = Inr 3 \<and>
   get_data_value marker_payload 16 = Inl StructError"
proof -
  have l: "length marker_payload = 16"
    by code_simp
  have h: "sint (hd marker_payload) = 3"
    by code_simp
  from extract_single_byte [OF l, of 1] extract_single_byte [OF l, of 16] l h show ?thesis
    by simp
qed

text \<open>
  C7, as it is stated, fails for a data size of 2: the specification's extractor gives 3, the
  code raises.
\<close>

theorem extract_two_bytes_counterexample:
  "length marker_payload = 16 \<and> (1::int) \<le> 2 \<and> spec_extract marker_payload 2 = 3 \<and>
   get_data_value marker_payload 2 = Inl StructError"
  by code_simp

text \<open>
  C8, as the code has it. \<^verbatim>\<open>convert_to_mp3\<close> keeps no compression code per stream. After a
  chunk sequence that is not empty, both encoder runs get one format, chosen from the
  compression of the last chunk of the whole sequence, whatever its stream id: \<open>g729\<close> when it
  is \<^verbatim>\<open>None\<close>, the entry of \<^verbatim>\<open>formats\<close> otherwise, and \<^verbatim>\<open>KeyError\<close> when there is no entry.
\<close>

theorem codec_of_last_chunk:
  assumes "chunks \<noteq> []"
  shows "convert_chunks chunks =
         bind_err (case fst (last chunks) of None \<Rightarrow> Inr ''g729'' | Some c \<Rightarrow> formats_item c)
           (\<lambda>format.
              Inr [\<lparr>input_format = format, output_file = Temp_caller,
                     stdin_bytes = stream_bytes 0 chunks\<rparr>,
                   \<lparr>input_format = format, output_file = Temp_receiver,
                     stdin_bytes = stream_bytes 1 chunks\<rparr>])"
  using assms by (rule convert_chunks_nonempty)

theorem codec_of_last_chunk_witness:
  "three_chunks \<noteq> [] \<and>
   convert_chunks three_chunks =
     Inr [\<lparr>input_format = ''g729'', output_file = Temp_caller, stdin_bytes = [1, 2, 4]\<rparr>,
          \<lparr>input_format = ''g729'', output_file = Temp_receiver, stdin_bytes = [3]\<rparr>]"
proof -
  have n: "three_chunks \<noteq> []"
    by code_simp
  have l: "fst (last three_chunks) = None"
    by code_simp
  have b: "stream_bytes 0 three_chunks = [1, 2, 4]" "stream_bytes 1 three_chunks = [3]"
    by code_simp+
  from codec_of_last_chunk [OF n] n l b show ?thesis
    by simp
qed

text \<open>
  C8, as it is stated, fails. With a chunk of code 3 on stream 0 followed by a chunk of code 7
  on stream 1, stream 0 is encoded as \<open>mulaw\<close>, not as \<open>alaw\<close>. With a chunk of unknown
  compression on stream 0 followed by a chunk of code 3 on stream 1, stream 0 is encoded as
  \<open>alaw\<close>, not as \<open>g729\<close>.
\<close>

theorem per_stream_codec_counterexample:
  "spec_stream_codec 0 [(Some 3, 0, [1]), (Some 7, 1, [2])] = Inr ''alaw'' \<and>
   convert_chunks [(Some 3, 0, [1]), (Some 7, 1, [2])] =
     Inr [\<lparr>input_format = ''mulaw'', output_file = Temp_caller, stdin_bytes = [1]\<rparr>,
          \<lparr>input_format = ''mulaw'', output_file = Temp_receiver, stdin_bytes = [2]\<rparr>] \<and>
   spec_stream_codec 0 [(None, 0, [1]), (Some 3, 1, [2])] = Inr ''g729'' \<and>
   convert_chunks [(None, 0, [1]), (Some 3, 1, [2])] =
     Inr [\<lparr>input_format = ''alaw'', output_file = Temp_caller, stdin_bytes = [1]\<rparr>,
          \<lparr>input_format = ''alaw'', output_file = Temp_receiver, stdin_bytes = [2]\<rparr>]"
  by code_simp

text \<open>
  C9. After the accumulation the buffer of stream 0 and the buffer of stream 1 are the
  concatenations, in order, of the bytes of the chunks with that stream id; a chunk with
  another stream id, wherever it stands in the sequence, leaves both buffers as they are
  without it.
\<close>

theorem buffers_by_stream:
  "audio_chunks (accumulate chunks) = [(0, stream_bytes 0 chunks), (1, stream_bytes 1 chunks)] \<and>
   (sid \<notin> {0, 1} \<longrightarrow>
      audio_chunks (accumulate (chunks @ [(c, sid, raw)] @ later)) =
      audio_chunks (accumulate (chunks @ later)))"
  by (simp add: accumulate_eq stream_bytes_def)

theorem buffers_by_stream_witness:
  "(5::int) \<notin> {0, 1} \<and>
   audio_chunks (accumulate (three_chunks @ [(Some 8, 5, [9, 9])] @ [(None, 1, [6])])) =
     [(0, [1, 2, 4]), (1, [3, 6])] \<and>
   audio_chunks (accumulate (three_chunks @ [(None, 1, [6])])) = [(0, [1, 2, 4]), (1, [3, 6])]"
proof -
  have s: "(5::int) \<notin> {0, 1}"
    by simp
  have a: "audio_chunks (accumulate (three_chunks @ [(None, 1, [6])])) = [(0, [1, 2, 4]), (1, [3, 6])]"
    by code_simp
  from buffers_by_stream [of three_chunks 5 "Some 8" "[9, 9]" "[(None, 1, [6])]"] s a
  show ?thesis
    by simp
qed

text \<open>
  C10. When the generator ends without an exception and has yielded no chunk, the variable
  \<open>compression\<close> is still unbound where the format is chosen, and \<^verbatim>\<open>convert_to_mp3\<close> raises
  \<^verbatim>\<open>UnboundLocalError\<close> before any encoder is started. The default \<open>g729\<close> is reached when
  at least one chunk was yielded and the last one has no compression code.
\<close>

theorem no_chunk_unbound:
  assumes "chunks_generator file = Gen chunks None"
  shows "(chunks = [] \<longrightarrow> convert_to_mp3 file = Inl UnboundLocalError) \<and>
         (chunks \<noteq> [] \<and> fst (last chunks) = None \<longrightarrow>
            convert_to_mp3 file =
              Inr [\<lparr>input_format = ''g729'', output_file = Temp_caller,
                     stdin_bytes = stream_bytes 0 chunks\<rparr>,
                   \<lparr>input_format = ''g729'', output_file = Temp_receiver,
                     stdin_bytes = stream_bytes 1 chunks\<rparr>])"
  using assms
  by (simp add: convert_to_mp3_def convert_chunks_empty convert_chunks_nonempty)

theorem no_chunk_unbound_witness:
  "chunks_generator (Some terminal_only) = Gen [] None \<and>
   convert_to_mp3 (Some terminal_only) = Inl UnboundLocalError \<and>
   chunks_generator (Some unchecked_container) = Gen [(None, 0, [17, 34])] None \<and>
   convert_to_mp3 (Some unchecked_container) =
     Inr [\<lparr>input_format = ''g729'', output_file = Temp_caller, stdin_bytes = [17, 34]\<rparr>,
          \<lparr>input_format = ''g729'', output_file = Temp_receiver, stdin_bytes = []\<rparr>]"
proof -
  have e: "chunks_generator (Some terminal_only) = Gen [] None"
    by code_simp
  have u: "chunks_generator (Some unchecked_container) = Gen [(None, 0, [17, 34])] None"
    by code_simp
  from no_chunk_unbound [OF e] no_chunk_unbound [OF u] e u show ?thesis
    by simp
qed

end
